theory Spec2Isabelle
  imports Complex_Main
begin

section \<open>Numbers, errors and arrays\<close>

text \<open>
  The module \<^verbatim>\<open>mvpa2/misc/fx.py\<close> is a collection of formulas over NumPy arrays.
  The response functions are modelled over floating-point numbers with their range and
  their special values (see below). The other functions are modelled over the real
  numbers, every operation exact; there the one nan the module produces itself, the
  sentinel \<^verbatim>\<open>np.nan\<close> returned for an invalid parameterisation, is a value of its own
  (\<open>NaN\<close> below). An exception is a value \<open>Inl e\<close> of the result type.
\<close>

datatype error =
    ZeroDivisionError
  | OverflowError
  | ValueError
  | TypeError
  | UnboundLocalError
  | LinAlgError

definition bindE :: "error + 'a \<Rightarrow> ('a \<Rightarrow> error + 'b) \<Rightarrow> error + 'b" where
  "bindE m f = (case m of Inl e \<Rightarrow> Inl e | Inr x \<Rightarrow> f x)"

fun mapE :: "('a \<Rightarrow> error + 'b) \<Rightarrow> 'a list \<Rightarrow> error + 'b list" where
  "mapE f [] = Inr []"
| "mapE f (x # xs) = bindE (f x) (\<lambda>y. bindE (mapE f xs) (\<lambda>ys. Inr (y # ys)))"

text \<open>
  An array is its shape and its elements in row-major (C) order, as NumPy stores it.
  A scalar is the array of shape \<open>[]\<close> with one element.
\<close>

record 'a ndarray =
  shape :: "nat list"
  elems :: "'a list"

definition wf_ndarray :: "'a ndarray \<Rightarrow> bool" where
  "wf_ndarray a \<longleftrightarrow> length (elems a) = prod_list (shape a)"

definition scalar :: "'a \<Rightarrow> 'a ndarray" where
  "scalar v = \<lparr>shape = [], elems = [v]\<rparr>"

definition array1 :: "'a list \<Rightarrow> 'a ndarray" where
  "array1 xs = \<lparr>shape = [length xs], elems = xs\<rparr>"

definition nd_map :: "('a \<Rightarrow> 'b) \<Rightarrow> 'a ndarray \<Rightarrow> 'b ndarray" where
  "nd_map f a = \<lparr>shape = shape a, elems = map f (elems a)\<rparr>"

definition nd_mapE :: "('a \<Rightarrow> error + 'b) \<Rightarrow> 'a ndarray \<Rightarrow> error + 'b ndarray" where
  "nd_mapE f a = bindE (mapE f (elems a)) (\<lambda>ys. Inr \<lparr>shape = shape a, elems = ys\<rparr>)"

subsection \<open>Floating-point numbers\<close>

text \<open>
  A Python float is an IEEE double. The model keeps its range and its special values
  and leaves out its rounding: the result of an operation on finite numbers is the exact
  real result while that is within range, an infinity from the point on where a double
  rounds to infinity (\<open>2^1024 - 2^970\<close>), and zero up to the point where a double
  rounds to zero (\<open>2^-1075\<close>). The two zeros are not distinguished.
\<close>

datatype float = Finite real | PosInf | NegInf | NotANumber

definition overflow_threshold :: real where
  "overflow_threshold = 2 ^ 1024 - 2 ^ 970"

definition underflow_threshold :: real where
  "underflow_threshold = 1 / 2 ^ 1075"

definition to_float :: "real \<Rightarrow> float" where
  "to_float v =
     (if overflow_threshold \<le> v then PosInf
      else if v \<le> - overflow_threshold then NegInf
      else if \<bar>v\<bar> \<le> underflow_threshold then Finite 0
      else Finite v)"

fun f_neg :: "float \<Rightarrow> float" where
  "f_neg (Finite a) = Finite (- a)"
| "f_neg PosInf = NegInf"
| "f_neg NegInf = PosInf"
| "f_neg NotANumber = NotANumber"

fun f_abs :: "float \<Rightarrow> float" where
  "f_abs (Finite a) = Finite \<bar>a\<bar>"
| "f_abs PosInf = PosInf"
| "f_abs NegInf = PosInf"
| "f_abs NotANumber = NotANumber"

fun f_add :: "float \<Rightarrow> float \<Rightarrow> float" where
  "f_add (Finite a) (Finite b) = to_float (a + b)"
| "f_add NotANumber y = NotANumber"
| "f_add x NotANumber = NotANumber"
| "f_add PosInf NegInf = NotANumber"
| "f_add NegInf PosInf = NotANumber"
| "f_add PosInf y = PosInf"
| "f_add x PosInf = PosInf"
| "f_add NegInf y = NegInf"
| "f_add x NegInf = NegInf"

definition f_sub :: "float \<Rightarrow> float \<Rightarrow> float" where
  "f_sub x y = f_add x (f_neg y)"

fun f_sign :: "float \<Rightarrow> real" where
  "f_sign (Finite a) = sgn a"
| "f_sign PosInf = 1"
| "f_sign NegInf = - 1"
| "f_sign NotANumber = 0"

fun f_mul :: "float \<Rightarrow> float \<Rightarrow> float" where
  "f_mul (Finite a) (Finite b) = to_float (a * b)"
| "f_mul NotANumber y = NotANumber"
| "f_mul x NotANumber = NotANumber"
| "f_mul x y =
     (if f_sign x * f_sign y = 0 then NotANumber
      else if 0 < f_sign x * f_sign y then PosInf else NegInf)"

text \<open>Division as IEEE defines it, a zero divisor included (a positive zero).\<close>

fun f_div :: "float \<Rightarrow> float \<Rightarrow> float" where
  "f_div (Finite a) (Finite b) =
     (if b = 0 then (if a = 0 then NotANumber else if 0 < a then PosInf else NegInf)
      else to_float (a / b))"
| "f_div NotANumber y = NotANumber"
| "f_div x NotANumber = NotANumber"
| "f_div (Finite a) y = Finite 0"
| "f_div x (Finite b) = (if b < 0 then f_neg x else x)"
| "f_div x y = NotANumber"

text \<open>The comparisons \<^verbatim>\<open>x >= y\<close> and \<^verbatim>\<open>x < 0\<close>, false on a nan.\<close>

fun f_ge :: "float \<Rightarrow> float \<Rightarrow> bool" where
  "f_ge (Finite a) (Finite b) \<longleftrightarrow> b \<le> a"
| "f_ge NotANumber y \<longleftrightarrow> False"
| "f_ge x NotANumber \<longleftrightarrow> False"
| "f_ge PosInf y \<longleftrightarrow> True"
| "f_ge x NegInf \<longleftrightarrow> True"
| "f_ge x y \<longleftrightarrow> False"

fun f_lt0 :: "float \<Rightarrow> bool" where
  "f_lt0 (Finite a) \<longleftrightarrow> a < 0"
| "f_lt0 NegInf \<longleftrightarrow> True"
| "f_lt0 x \<longleftrightarrow> False"

fun is_inf :: "float \<Rightarrow> bool" where
  "is_inf PosInf \<longleftrightarrow> True"
| "is_inf NegInf \<longleftrightarrow> True"
| "is_inf x \<longleftrightarrow> False"

text \<open>The functions of the C library that the powers below use.\<close>

fun f_exp :: "float \<Rightarrow> float" where
  "f_exp (Finite a) = to_float (exp a)"
| "f_exp PosInf = PosInf"
| "f_exp NegInf = Finite 0"
| "f_exp NotANumber = NotANumber"

fun f_cos :: "float \<Rightarrow> float" where
  "f_cos (Finite a) = to_float (cos a)"
| "f_cos x = NotANumber"

fun f_sin :: "float \<Rightarrow> float" where
  "f_sin (Finite a) = to_float (sin a)"
| "f_sin x = NotANumber"

fun f_pow :: "real \<Rightarrow> float \<Rightarrow> float" where
  \<comment> \<open>\<^verbatim>\<open>pow(v, y)\<close> for a positive finite \<open>v\<close>\<close>
  "f_pow v (Finite y) = to_float (v powr y)"
| "f_pow v PosInf = (if 1 < v then PosInf else if v = 1 then Finite 1 else Finite 0)"
| "f_pow v NegInf = (if 1 < v then Finite 0 else if v = 1 then Finite 1 else PosInf)"
| "f_pow v NotANumber = (if v = 1 then Finite 1 else NotANumber)"

definition is_small_int :: "float \<Rightarrow> real \<Rightarrow> bool" where
  \<comment> \<open>a finite number with an integral value of magnitude at most \<open>m\<close>\<close>
  "is_small_int x m \<longleftrightarrow> (case x of Finite a \<Rightarrow> a = of_int \<lfloor>a\<rfloor> \<and> \<bar>a\<bar> \<le> m | _ \<Rightarrow> False)"

definition int_of_float :: "float \<Rightarrow> int" where
  "int_of_float x = (case x of Finite a \<Rightarrow> \<lfloor>a\<rfloor> | _ \<Rightarrow> 0)"

subsection \<open>Python arithmetic\<close>

definition py_float :: "real \<Rightarrow> real" where
  \<comment> \<open>\<^verbatim>\<open>float(v)\<close> of a number that is a float already.\<close>
  "py_float v = v"

text \<open>
  \<^verbatim>\<open>a / b\<close> on floats raises on a zero divisor. \<^verbatim>\<open>a ** 2\<close> on a float raises when the
  square overflows and gives zero when it underflows (CPython's \<^verbatim>\<open>float_pow\<close>).
\<close>

definition float_truediv :: "float \<Rightarrow> float \<Rightarrow> error + float" where
  "float_truediv a b = (if b = Finite 0 then Inl ZeroDivisionError else Inr (f_div a b))"

definition float_sq :: "float \<Rightarrow> error + float" where
  "float_sq a =
     (case a of
        Finite v \<Rightarrow> if overflow_threshold \<le> v ^ 2 then Inl OverflowError else Inr (to_float (v ^ 2))
      | NotANumber \<Rightarrow> Inr NotANumber
      | _ \<Rightarrow> Inr PosInf)"

text \<open>
  A Python complex number is a pair of floats. Sum, negation, product and quotient are
  CPython's \<^verbatim>\<open>_Py_c_sum\<close>, \<^verbatim>\<open>_Py_c_neg\<close>, \<^verbatim>\<open>_Py_c_prod\<close> and \<^verbatim>\<open>_Py_c_quot\<close>; the quotient
  divides by the larger component of the divisor and raises on a zero divisor. An
  operation on a float and a complex number takes the float as \<open>(x, 0)\<close>.
\<close>

type_synonym cfloat = "float \<times> float"

definition c_sum :: "cfloat \<Rightarrow> cfloat \<Rightarrow> cfloat" where
  "c_sum a b = (f_add (fst a) (fst b), f_add (snd a) (snd b))"

definition c_neg :: "cfloat \<Rightarrow> cfloat" where
  "c_neg a = (f_neg (fst a), f_neg (snd a))"

definition c_prod :: "cfloat \<Rightarrow> cfloat \<Rightarrow> cfloat" where
  "c_prod a b =
     (f_sub (f_mul (fst a) (fst b)) (f_mul (snd a) (snd b)),
      f_add (f_mul (fst a) (snd b)) (f_mul (snd a) (fst b)))"

definition c_quot :: "cfloat \<Rightarrow> cfloat \<Rightarrow> error + cfloat" where
  "c_quot a b =
     (let abs_breal = f_abs (fst b); abs_bimag = f_abs (snd b) in
      if f_ge abs_breal abs_bimag then
        (if abs_breal = Finite 0 then Inl ZeroDivisionError
         else
           (let ratio = f_div (snd b) (fst b);
                denom = f_add (fst b) (f_mul (snd b) ratio)
            in Inr (f_div (f_add (fst a) (f_mul (snd a) ratio)) denom,
                    f_div (f_sub (snd a) (f_mul (fst a) ratio)) denom)))
      else if f_ge abs_bimag abs_breal then
        (let ratio = f_div (fst b) (snd b);
             denom = f_add (f_mul (fst b) ratio) (snd b)
         in Inr (f_div (f_add (f_mul (fst a) ratio) (snd a)) denom,
                 f_div (f_sub (f_mul (snd a) ratio) (fst a)) denom))
      else Inr (NotANumber, NotANumber))"

text \<open>
  \<^verbatim>\<open>a ** b\<close> on complex numbers, as CPython's \<^verbatim>\<open>complex_pow\<close> computes it, for a finite
  base \<open>a\<close> (the source's bases are \<^verbatim>\<open>0j\<close> and \<^verbatim>\<open>np.e\<close>). A small integral exponent goes
  through repeated multiplication (\<^verbatim>\<open>c_powi\<close>; CPython multiplies by squaring, the
  products are the same numbers), every other exponent through the polar form
  (\<^verbatim>\<open>_Py_c_pow\<close>), where a zero base gives zero for a positive real exponent and raises
  for a negative or complex one. A result with an infinite component raises
  \<^verbatim>\<open>OverflowError\<close>.
\<close>

definition cfloat_of :: "complex \<Rightarrow> cfloat" where
  "cfloat_of a = (to_float (Re a), to_float (Im a))"

primrec c_powu :: "cfloat \<Rightarrow> nat \<Rightarrow> cfloat" where
  "c_powu x 0 = (Finite 1, Finite 0)"
| "c_powu x (Suc n) = c_prod (c_powu x n) x"

definition c_powi :: "cfloat \<Rightarrow> int \<Rightarrow> error + cfloat" where
  "c_powi x n =
     (if n > 0 then Inr (c_powu x (nat n))
      else c_quot (Finite 1, Finite 0) (c_powu x (nat (- n))))"

definition polar_pow :: "complex \<Rightarrow> cfloat \<Rightarrow> cfloat" where
  \<comment> \<open>the polar form of \<open>a ** b\<close> for a non-zero base\<close>
  "polar_pow a b =
     (let vabs = cmod a;
          len = f_pow vabs (fst b);
          theta = to_float (Arg a);
          phase = f_mul theta (fst b);
          len' = (if snd b \<noteq> Finite 0 then f_div len (f_exp (f_mul theta (snd b))) else len);
          phase' = (if snd b \<noteq> Finite 0 then f_add phase (f_mul (snd b) (to_float (ln vabs)))
                    else phase)
      in (f_mul len' (f_cos phase'), f_mul len' (f_sin phase')))"

definition c_pow :: "complex \<Rightarrow> cfloat \<Rightarrow> error + cfloat" where
  "c_pow a b =
     (if fst b = Finite 0 \<and> snd b = Finite 0 then Inr (Finite 1, Finite 0)
      else if Re a = 0 \<and> Im a = 0 then
        (if snd b \<noteq> Finite 0 \<or> f_lt0 (fst b) then Inl ZeroDivisionError
         else Inr (Finite 0, Finite 0))
      else Inr (polar_pow a b))"

definition complex_pow :: "complex \<Rightarrow> cfloat \<Rightarrow> error + cfloat" where
  "complex_pow a b =
     bindE (if snd b = Finite 0 \<and> is_small_int (fst b) 100
            then c_powi (cfloat_of a) (int_of_float (fst b))
            else c_pow a b) (\<lambda>p.
       if is_inf (fst p) \<or> is_inf (snd p) then Inl OverflowError else Inr p)"

subsection \<open>NumPy arithmetic\<close>

text \<open>
  On an array NumPy works elementwise and raises nothing: a division by zero gives an
  infinity or a nan, an overflow an infinity. The complex quotient multiplies by the
  reciprocal of the scaled divisor. The power \<^verbatim>\<open>a ** b\<close> (\<^verbatim>\<open>npy_cpow\<close>, for a finite
  base) multiplies out an integral exponent of magnitude below 100 and otherwise
  calls the complex power of the C library, which is taken here in the polar form that
  CPython uses.
\<close>

definition np_cdiv :: "cfloat \<Rightarrow> cfloat \<Rightarrow> cfloat" where
  "np_cdiv a b =
     (let in2r_abs = f_abs (fst b); in2i_abs = f_abs (snd b) in
      if f_ge in2r_abs in2i_abs then
        (if in2r_abs = Finite 0 \<and> in2i_abs = Finite 0
         then (f_div (fst a) in2r_abs, f_div (snd a) in2r_abs)
         else
           (let rat = f_div (snd b) (fst b);
                scl = f_div (Finite 1) (f_add (fst b) (f_mul (snd b) rat))
            in (f_mul (f_add (fst a) (f_mul (snd a) rat)) scl,
                f_mul (f_sub (snd a) (f_mul (fst a) rat)) scl)))
      else
        (let rat = f_div (fst b) (snd b);
             scl = f_div (Finite 1) (f_add (snd b) (f_mul (fst b) rat))
         in (f_mul (f_add (f_mul (fst a) rat) (snd a)) scl,
             f_mul (f_sub (f_mul (snd a) rat) (fst a)) scl)))"

definition np_power :: "complex \<Rightarrow> cfloat \<Rightarrow> cfloat" where
  "np_power a b =
     (if fst b = Finite 0 \<and> snd b = Finite 0 then (Finite 1, Finite 0)
      else if Re a = 0 \<and> Im a = 0 then
        (if f_lt0 (f_neg (fst b)) \<and> snd b = Finite 0 then (Finite 0, Finite 0)
         else (NotANumber, NotANumber))
      else if snd b = Finite 0 \<and> is_small_int (fst b) 99 then
        (let r = c_powu (cfloat_of a) (nat \<bar>int_of_float (fst b)\<bar>)
         in if f_lt0 (fst b) then np_cdiv (Finite 1, Finite 0) r else r)
      else polar_pow a b)"

subsection \<open>Subtraction of arrays\<close>

text \<open>
  \<^verbatim>\<open>a - b\<close> on arrays, with NumPy's broadcasting: the shapes are aligned at their last
  axis, an axis of length 1 is stretched, and two different lengths other than 1 raise.
  Both functions work on the reversed shapes; \<open>bidx\<close> maps a flat index of the result
  to the flat index of the operand's element that takes part there.
\<close>

fun broadcast_rev :: "nat list \<Rightarrow> nat list \<Rightarrow> error + nat list" where
  "broadcast_rev [] ys = Inr ys"
| "broadcast_rev xs [] = Inr xs"
| "broadcast_rev (a # xs) (b # ys) =
     (if a = b \<or> b = 1 then bindE (broadcast_rev xs ys) (\<lambda>r. Inr (a # r))
      else if a = 1 then bindE (broadcast_rev xs ys) (\<lambda>r. Inr (b # r))
      else Inl ValueError)"

fun bidx :: "nat list \<Rightarrow> nat list \<Rightarrow> nat \<Rightarrow> nat" where
  "bidx (r # rs) (d # ds) k = (if d = 1 then 0 else k mod r) + d * bidx rs ds (k div r)"
| "bidx rs ds k = 0"

definition np_sub :: "'a::minus ndarray \<Rightarrow> 'a ndarray \<Rightarrow> error + 'a ndarray" where
  "np_sub a b =
     bindE (broadcast_rev (rev (shape a)) (rev (shape b))) (\<lambda>rs.
       Inr \<lparr>shape = rev rs,
            elems = map (\<lambda>k. elems a ! bidx rs (rev (shape a)) k
                              - elems b ! bidx rs (rev (shape b)) k)
                       [0..<prod_list rs]\<rparr>)"

section \<open>Hemodynamic response functions\<close>

text \<open>
  \<^verbatim>\<open>single_gamma_hrf(t, A, W, K)\<close>. The time \<open>t\<close> is a Python float, the array of shape
  \<open>[]\<close>, or a NumPy array, whose operations are elementwise and raise nothing. The
  arguments are real numbers and are taken as floats. \<open>hrf_exponent\<close> is the exponent
  \<^verbatim>\<open>(A ** 2) / (W ** 2) * 8.0 * np.log(2.0)\<close> of \<^verbatim>\<open>0j\<close>, \<open>hrf_divisor\<close> the divisor
  \<^verbatim>\<open>-((W + 0j ** 2) / A / 8.0 / np.log(2.0))\<close> of \<^verbatim>\<open>t - A\<close>; \<open>single_gamma_hrf_res\<close> is the
  complex value \<^verbatim>\<open>res\<close> of the source, \<open>single_gamma_hrf\<close> its real part, which the
  source returns.
\<close>

definition hrf_exponent :: "float \<Rightarrow> float \<Rightarrow> error + float" where
  "hrf_exponent A W =
     bindE (float_sq A) (\<lambda>a2.
     bindE (float_sq W) (\<lambda>w2.
     bindE (float_truediv a2 w2) (\<lambda>r.
     Inr (f_mul (f_mul r (Finite 8)) (Finite (ln 2))))))"

definition hrf_divisor :: "float \<Rightarrow> float \<Rightarrow> error + cfloat" where
  "hrf_divisor A W =
     bindE (complex_pow 0 (Finite 2, Finite 0)) (\<lambda>z2.
     bindE (c_quot (c_sum (W, Finite 0) z2) (A, Finite 0)) (\<lambda>c.
     bindE (c_quot c (Finite 8, Finite 0)) (\<lambda>c8.
     bindE (c_quot c8 (Finite (ln 2), Finite 0)) (\<lambda>c82.
     Inr (c_neg c82)))))"

definition single_gamma_hrf_res ::
    "real ndarray \<Rightarrow> real \<Rightarrow> real \<Rightarrow> real \<Rightarrow> error + cfloat ndarray" where
  "single_gamma_hrf_res t A0 W0 K0 =
     (let A = to_float (py_float A0); W = to_float (py_float W0); K = to_float (py_float K0);
          is_scalar = (shape t = [])
      in
      bindE (nd_mapE (\<lambda>ti. if is_scalar then float_truediv (to_float ti) A
                            else Inr (f_div (to_float ti) A)) t) (\<lambda>q.
      bindE (hrf_exponent A W) (\<lambda>e0.
      bindE (complex_pow 0 (e0, Finite 0)) (\<lambda>z.
      bindE (hrf_divisor A W) (\<lambda>d.
      bindE (nd_mapE (\<lambda>ti. if is_scalar then c_quot (f_sub (to_float ti) A, Finite 0) d
                            else Inr (np_cdiv (f_sub (to_float ti) A, Finite 0) d)) t) (\<lambda>ex.
      bindE (nd_mapE (\<lambda>e. if is_scalar then complex_pow (Complex (exp 1) 0) e
                           else Inr (np_power (Complex (exp 1) 0) e)) ex) (\<lambda>pw.
      Inr \<lparr>shape = shape t,
           elems = map2 (\<lambda>qi pwi. c_sum (f_mul K qi, Finite 0) (c_prod z pwi))
                        (elems q) (elems pw)\<rparr>)))))))"

definition single_gamma_hrf ::
    "real ndarray \<Rightarrow> real \<Rightarrow> real \<Rightarrow> real \<Rightarrow> error + float ndarray" where
  "single_gamma_hrf t A W K =
     bindE (single_gamma_hrf_res t A W K) (\<lambda>res. Inr (nd_map fst res))"

text \<open>
  The range in which the floats of the formula behave like real numbers: a number is
  in the normal range when it is zero or neither overflows nor underflows.
  \<open>hrf_params_in_range\<close> says so of the numbers computed from \<open>A\<close> and \<open>W\<close>,
  \<open>hrf_time_in_range\<close> of those computed from one time \<open>t\<close>, but for the power of
  \<^verbatim>\<open>np.e\<close>, which may underflow and only has to stay below the overflow threshold;
  \<open>hrf_in_range\<close> of all of them for a scalar or an array, where the array also needs
  the reciprocal of the divisor that NumPy's quotient forms.
\<close>

definition normal_range :: "real \<Rightarrow> bool" where
  "normal_range v \<longleftrightarrow>
     - overflow_threshold < v \<and> v < overflow_threshold \<and> (v = 0 \<or> underflow_threshold < \<bar>v\<bar>)"

definition hrf_params_in_range :: "real \<Rightarrow> real \<Rightarrow> bool" where
  "hrf_params_in_range A W \<longleftrightarrow>
     normal_range A \<and> normal_range W \<and> normal_range (A ^ 2) \<and> normal_range (W ^ 2)
     \<and> normal_range (A ^ 2 / W ^ 2) \<and> normal_range (A ^ 2 / W ^ 2 * 8)
     \<and> normal_range (A ^ 2 / W ^ 2 * 8 * ln 2)
     \<and> normal_range (W / A) \<and> normal_range (W / A / 8) \<and> normal_range (W / A / 8 / ln 2)"

definition hrf_time_in_range :: "real \<Rightarrow> real \<Rightarrow> real \<Rightarrow> real \<Rightarrow> bool" where
  "hrf_time_in_range t A W K \<longleftrightarrow>
     normal_range t \<and> normal_range K \<and> normal_range (t / A) \<and> normal_range (K * (t / A))
     \<and> normal_range (t - A) \<and> normal_range ((t - A) / - (W / A / 8 / ln 2))
     \<and> exp ((t - A) / - (W / A / 8 / ln 2)) < overflow_threshold"

definition hrf_in_range :: "real ndarray \<Rightarrow> real \<Rightarrow> real \<Rightarrow> real \<Rightarrow> bool" where
  "hrf_in_range t A W K \<longleftrightarrow>
     hrf_params_in_range A W
     \<and> (\<forall>ti \<in> set (elems t). hrf_time_in_range ti A W K)
     \<and> (shape t \<noteq> [] \<longrightarrow> normal_range (1 / - (W / A / 8 / ln 2)))"

text \<open>
  \<^verbatim>\<open>double_gamma_hrf\<close> subtracts two results of \<^verbatim>\<open>single_gamma_hrf\<close>, two floats or two
  arrays of floats.
\<close>

instantiation float :: minus
begin

definition minus_float :: "float \<Rightarrow> float \<Rightarrow> float" where
  "minus_float x y = f_sub x y"

instance ..

end


section \<open>Gaussian mixtures\<close>

text \<open>
  \<^verbatim>\<open>scipy.stats.norm.pdf(x, loc, scale)\<close> is SciPy's: it standardises the argument,
  evaluates the standard normal density and divides by the scale.
  \<open>normal_density\<close> is the density of the normal distribution as it is usually written.
\<close>

definition norm_pdf :: "real \<Rightarrow> real \<Rightarrow> real \<Rightarrow> real" where
  "norm_pdf x loc scale = exp (- (((x - loc) / scale) ^ 2) / 2) / sqrt (2 * pi) / scale"


datatype 'a or_nan = NaN | Val 'a

definition dual_gaussian ::
    "real ndarray \<Rightarrow> real \<Rightarrow> real \<Rightarrow> real \<Rightarrow> real \<Rightarrow> real \<Rightarrow> real \<Rightarrow> real ndarray or_nan" where
  "dual_gaussian x amp1 mean1 std1 amp2 mean2 std2 =
     (if std1 \<le> 0 \<or> std2 \<le> 0 then NaN
      else Val (nd_map (\<lambda>xi. (amp1 * norm_pdf xi mean1 std1) + (amp2 * norm_pdf xi mean2 std2)) x))"

definition dual_positive_gaussian ::
    "real ndarray \<Rightarrow> real \<Rightarrow> real \<Rightarrow> real \<Rightarrow> real \<Rightarrow> real \<Rightarrow> real \<Rightarrow> real ndarray or_nan" where
  "dual_positive_gaussian x amp1 mean1 std1 amp2 mean2 std2 =
     (if amp1 < 0 \<or> amp2 < 0 then NaN
      else dual_gaussian x amp1 mean1 std1 amp2 mean2 std2)"

section \<open>Least-squares fit\<close>

text \<open>
  \<^verbatim>\<open>least_sq_fit(fx, params, y, x=None, **kwargs)\<close>. The solver
  \<^verbatim>\<open>scipy.optimize.leastsq\<close> is a parameter of the model, and so is the function \<open>fx\<close>
  to fit, which here has its keyword arguments already bound. \<open>least_sq_xy\<close> is the
  part of the source that prepares \<open>x\<close> and \<open>y\<close>, \<open>efx\<close> the error function it defines.
\<close>

definition nd_get2 :: "'a ndarray \<Rightarrow> nat \<Rightarrow> nat \<Rightarrow> 'a" where
  \<comment> \<open>\<^verbatim>\<open>a[i, j]\<close> of a two-dimensional array, for indices in range\<close>
  "nd_get2 a i j = elems a ! (i * (shape a ! 1) + j)"

definition ravel :: "'a ndarray \<Rightarrow> 'a ndarray" where
  "ravel a = \<lparr>shape = [length (elems a)], elems = elems a\<rparr>"

definition arange :: "nat \<Rightarrow> real ndarray" where
  "arange n = array1 (map real [0..<n])"

definition tile_ravel :: "nat \<Rightarrow> 'a ndarray \<Rightarrow> 'a ndarray" where
  \<comment> \<open>\<^verbatim>\<open>np.array([x] * nsamp).ravel()\<close>\<close>
  "tile_ravel nsamp x = ravel \<lparr>shape = nsamp # shape x, elems = concat (replicate nsamp (elems x))\<rparr>"

definition least_sq_xy ::
    "real ndarray \<Rightarrow> real ndarray option \<Rightarrow> error + (real ndarray \<times> real ndarray)" where
  "least_sq_xy y xo =
     bindE (case shape y of
              [] \<Rightarrow> Inl TypeError
            | [n] \<Rightarrow> Inr (1, n)
            | [n, m] \<Rightarrow> Inr (n, m)
            | _ \<Rightarrow> Inl ValueError) (\<lambda>(nsamp, ylen).
       let x = (case xo of None \<Rightarrow> arange ylen | Some x \<Rightarrow> x) in
       if nsamp > 1 then Inr (tile_ravel nsamp x, ravel y) else Inr (x, y))"

definition efx ::
    "(real ndarray \<Rightarrow> real list \<Rightarrow> error + real ndarray) \<Rightarrow> real ndarray \<Rightarrow> real ndarray
      \<Rightarrow> real list \<Rightarrow> error + real ndarray" where
  "efx fx x y p = bindE (fx x p) (\<lambda>v. np_sub y v)"

definition least_sq_fit ::
    "((real list \<Rightarrow> error + real ndarray) \<Rightarrow> real list \<Rightarrow> error + 'r)
      \<Rightarrow> (real ndarray \<Rightarrow> real list \<Rightarrow> error + real ndarray)
      \<Rightarrow> real list \<Rightarrow> real ndarray \<Rightarrow> real ndarray option \<Rightarrow> error + 'r" where
  "least_sq_fit leastsq fx params y xo =
     bindE (least_sq_xy y xo) (\<lambda>(x, y'). leastsq (efx fx x y') params)"

section \<open>Fit to histograms\<close>

text \<open>
  \<^verbatim>\<open>np.round(v, decimals=6)\<close> rounds \<open>v * 10^6\<close> to the nearest integer, a tie to the even
  one, and divides by \<open>10^6\<close>. \<^verbatim>\<open>np.unique\<close> gives the sorted distinct values,
  \<^verbatim>\<open>np.asscalar\<close> the only element of an array of size one and raises on any other size.
\<close>

definition rint :: "real \<Rightarrow> int" where
  "rint v =
     (let f = \<lfloor>v\<rfloor>; r = v - of_int f in
      if r < 1 / 2 then f
      else if r > 1 / 2 then f + 1
      else if even f then f else f + 1)"

definition np_round6 :: "real \<Rightarrow> real" where
  "np_round6 v = of_int (rint (v * 10 ^ 6)) / 10 ^ 6"

definition np_unique :: "real list \<Rightarrow> real list" where
  "np_unique xs = sort (remdups xs)"

definition asscalar :: "'a list \<Rightarrow> error + 'a" where
  "asscalar xs = (case xs of [v] \<Rightarrow> Inr v | _ \<Rightarrow> Inl ValueError)"

text \<open>
  \<^verbatim>\<open>np.histogram(a, bins=nbins, range=(lo, hi))\<close> is NumPy's. In exact arithmetic it
  does the following: it raises for less than one bin and for \<open>lo > hi\<close>, widens an
  empty range \<open>lo = hi\<close> by one half on each side, places \<open>bins + 1\<close> equally spaced
  edges from the first to the last, and counts the elements of each bin, every bin closed
  on the left and open on the right but the last, which is closed on both sides.
  The pipeline below takes the histogram routine as a parameter, since the edges a
  floating-point routine returns need not be equally spaced to the last digit;
  \<open>np_histogram\<close> is the instance for exact arithmetic.
\<close>

definition np_histogram :: "real list \<Rightarrow> nat \<Rightarrow> real \<times> real \<Rightarrow> error + (nat list \<times> real list)" where
  "np_histogram a bins rng =
     (case rng of (lo, hi) \<Rightarrow>
        if bins < 1 then Inl ValueError
        else if lo > hi then Inl ValueError
        else
          (let first_edge = (if lo = hi then lo - 1 / 2 else lo);
               last_edge = (if lo = hi then hi + 1 / 2 else hi);
               edges = map (\<lambda>i. first_edge + real i * ((last_edge - first_edge) / real bins))
                           [0..<bins + 1];
               counts = map (\<lambda>i. length (filter (\<lambda>v. edges ! i \<le> v \<and>
                                       (if i + 1 = bins then v \<le> edges ! (i + 1)
                                        else v < edges ! (i + 1))) a))
                            [0..<bins]
           in Inr (counts, edges)))"

text \<open>
  \<^verbatim>\<open>fit2histogram(X, fx, params, nbins, x_range)\<close>. \<open>X\<close> is the list of its rows.
  The variables \<^verbatim>\<open>bin_left\<close>, \<^verbatim>\<open>bin_width\<close> and \<^verbatim>\<open>bin_centers\<close> are set together in
  the first pass of the loop; the state of the loop holds them as one optional triple,
  next to the list \<open>H\<close> of the histograms so far.
\<close>

definition x_range_of :: "real list list \<Rightarrow> (real \<times> real) option \<Rightarrow> error + (real \<times> real)" where
  "x_range_of X x_range =
     (case x_range of
        Some r \<Rightarrow> Inr r
      | None \<Rightarrow> if concat X = [] then Inl ValueError
                else Inr (Min (set (concat X)), Max (set (concat X))))"

definition bin_width_of :: "real list \<Rightarrow> error + real" where
  "bin_width_of edges =
     bindE (asscalar (np_unique (map np_round6 (map2 (-) (butlast edges) (tl edges)))))
       (\<lambda>w. Inr \<bar>w\<bar>)"

fun hist_loop ::
    "(real list \<Rightarrow> nat \<Rightarrow> real \<times> real \<Rightarrow> error + (nat list \<times> real list))
      \<Rightarrow> nat \<Rightarrow> real \<times> real \<Rightarrow> real list list
      \<Rightarrow> nat list list \<times> (real list \<times> real \<times> real list) option
      \<Rightarrow> error + (nat list list \<times> (real list \<times> real \<times> real list) option)" where
  "hist_loop histogram nbins rng [] st = Inr st"
| "hist_loop histogram nbins rng (obsrv # rest) (H, bins) =
     bindE (histogram obsrv nbins rng) (\<lambda>(counts, edges).
     bindE (case bins of
              Some b \<Rightarrow> Inr (Some b)
            | None \<Rightarrow>
                bindE (bin_width_of edges) (\<lambda>bin_width.
                  Inr (Some (butlast edges, bin_width,
                             map (\<lambda>l. l + bin_width / 2) (butlast edges))))) (\<lambda>bins'.
     hist_loop histogram nbins rng rest (H @ [counts], bins')))"

definition asarray2 :: "'a list list \<Rightarrow> error + 'a ndarray" where
  \<comment> \<open>\<^verbatim>\<open>np.asarray\<close> of a list of rows; rows of different lengths raise.\<close>
  "asarray2 H =
     (case H of
        [] \<Rightarrow> Inr \<lparr>shape = [0], elems = []\<rparr>
      | h # _ \<Rightarrow> if \<forall>r \<in> set H. length r = length h
                 then Inr \<lparr>shape = [length H, length h], elems = concat H\<rparr>
                 else Inl ValueError)"

definition fit2histogram ::
    "(real list \<Rightarrow> nat \<Rightarrow> real \<times> real \<Rightarrow> error + (nat list \<times> real list))
      \<Rightarrow> ((real list \<Rightarrow> error + real ndarray) \<Rightarrow> real list \<Rightarrow> error + 'r)
      \<Rightarrow> real list list
      \<Rightarrow> (real ndarray \<Rightarrow> real list \<Rightarrow> error + real ndarray)
      \<Rightarrow> real list \<Rightarrow> nat \<Rightarrow> (real \<times> real) option
      \<Rightarrow> error + (nat ndarray \<times> real list \<times> real \<times> 'r)" where
  "fit2histogram histogram leastsq X fx params nbins x_range =
     bindE (x_range_of X x_range) (\<lambda>rng.
     bindE (hist_loop histogram nbins rng X ([], None)) (\<lambda>(H, bins).
     bindE (if length H = 1 then Inr (array1 (hd H)) else asarray2 H) (\<lambda>Ha.
     case bins of
       None \<Rightarrow> Inl UnboundLocalError
     | Some (bin_left, bin_width, bin_centers) \<Rightarrow>
         bindE (least_sq_fit leastsq fx params (nd_map real Ha) (Some (array1 bin_centers)))
           (\<lambda>fit. Inr (Ha, bin_left, bin_width, fit)))))"

section \<open>Random rotation\<close>

text \<open>
  A matrix is the list of its rows. \<^verbatim>\<open>np.linalg.svd\<close> and the sample drawn by
  \<^verbatim>\<open>np.random.normal\<close> are parameters of the model. The dimensions \<open>ns\<close> and \<open>nt\<close> are
  natural numbers. \<open>det\<close> is the determinant by expansion along the first column;
  \<^verbatim>\<open>np.linalg.det\<close> raises on a matrix that is not square.
\<close>

type_synonym matrix = "real list list"

definition head0 :: "real list \<Rightarrow> real" where
  "head0 r = (case r of [] \<Rightarrow> 0 | a # _ \<Rightarrow> a)"

definition minor :: "nat \<Rightarrow> matrix \<Rightarrow> matrix" where
  "minor i M = map tl (take i M @ drop (Suc i) M)"

function det :: "matrix \<Rightarrow> real" where
  "det [] = 1"
| "det (r # rs) =
     (\<Sum>i\<leftarrow>[0..<Suc (length rs)]. (- 1) ^ i * head0 ((r # rs) ! i) * det (minor i (r # rs)))"
  by pat_completeness auto
termination
  by (relation "measure length") (auto simp: minor_def)

definition is_square :: "matrix \<Rightarrow> bool" where
  "is_square M \<longleftrightarrow> (\<forall>r \<in> set M. length r = length M)"

definition np_det :: "matrix \<Rightarrow> error + real" where
  "np_det M = (if is_square M then Inr (det M) else Inl LinAlgError)"

definition neg_first :: "real list \<Rightarrow> real list" where
  \<comment> \<open>one row of \<^verbatim>\<open>R[:, 0] *= -1.0\<close>\<close>
  "neg_first r = (case r of [] \<Rightarrow> [] | a # as \<Rightarrow> (a * (- 1)) # as)"

definition get_random_rotation ::
    "(matrix \<Rightarrow> error + (matrix \<times> real list \<times> matrix)) \<Rightarrow> (nat \<Rightarrow> nat \<Rightarrow> matrix)
      \<Rightarrow> nat \<Rightarrow> nat option \<Rightarrow> matrix option \<Rightarrow> error + matrix" where
  "get_random_rotation svd normal ns nto datao =
     (let nt = (case nto of None \<Rightarrow> ns | Some n \<Rightarrow> n);
          d = max ns nt;
          data = (case datao of None \<Rightarrow> normal (d * 10) d | Some D \<Rightarrow> D)
      in bindE (svd (map (take d) data)) (\<lambda>(u, s, vh).
           let R = map (take nt) (take ns vh) in
           if ns = nt then
             bindE (np_det R) (\<lambda>dt. if dt < 0 then Inr (map neg_first R) else Inr R)
           else Inr R))"

text \<open>Shape, product with a transpose, identity.\<close>

definition has_shape :: "matrix \<Rightarrow> nat \<Rightarrow> nat \<Rightarrow> bool" where
  "has_shape M n m \<longleftrightarrow> length M = n \<and> (\<forall>r \<in> set M. length r = m)"

definition dot :: "real list \<Rightarrow> real list \<Rightarrow> real" where
  "dot a b = sum_list (map2 (*) a b)"

definition mul_transposed :: "matrix \<Rightarrow> matrix \<Rightarrow> matrix" where
  \<comment> \<open>\<^verbatim>\<open>A @ B.T\<close>: the entry at \<open>(i, j)\<close> is the dot product of row \<open>i\<close> of \<open>A\<close> and row \<open>j\<close> of \<open>B\<close>\<close>
  "mul_transposed A B = map (\<lambda>a. map (\<lambda>b. dot a b) B) A"

definition identity :: "nat \<Rightarrow> matrix" where
  "identity n = map (\<lambda>i. map (\<lambda>j. if i = j then 1 else 0) [0..<n]) [0..<n]"

text \<open>
  What the model assumes of \<^verbatim>\<open>np.linalg.svd\<close>: for a matrix with \<open>c\<close> columns the third
  result \<open>vh\<close> is a \<open>c \<times> c\<close> matrix (\<open>svd_shape_contract\<close>), and that matrix is
  orthogonal, so its determinant is \<open>1\<close> or \<open>- 1\<close> (\<open>svd_contract\<close>).
\<close>

definition svd_shape_contract :: "(matrix \<Rightarrow> error + (matrix \<times> real list \<times> matrix)) \<Rightarrow> bool" where
  "svd_shape_contract svd \<longleftrightarrow>
     (\<forall>M c u s vh. M \<noteq> [] \<and> (\<forall>r \<in> set M. length r = c) \<and> svd M = Inr (u, s, vh)
        \<longrightarrow> has_shape vh c c)"

definition svd_contract :: "(matrix \<Rightarrow> error + (matrix \<times> real list \<times> matrix)) \<Rightarrow> bool" where
  "svd_contract svd \<longleftrightarrow>
     (\<forall>M c u s vh. M \<noteq> [] \<and> (\<forall>r \<in> set M. length r = c) \<and> svd M = Inr (u, s, vh)
        \<longrightarrow> has_shape vh c c \<and> mul_transposed vh vh = identity c \<and> \<bar>det vh\<bar> = 1)"

section \<open>Sample instances of the parameters\<close>

text \<open>
  Concrete instances of the external routines, for evaluating the functions above.
  \<open>start_residual\<close> stands in for the solver and returns the residuals at the start
  values, which shows the error function the solver is given. \<open>line\<close> is a function to
  fit, \<open>a * x + b\<close>. \<open>skewed_histogram\<close> returns edges whose two widths differ in the
  sixth decimal place. \<open>svd_sample\<close> knows the singular value decomposition
  \<open>M = U diag(S) Vh\<close> of two matrices and fails on every other. \<open>unit_sample\<close> is a
  matrix of the requested shape.
\<close>

definition start_residual ::
    "(real list \<Rightarrow> error + real ndarray) \<Rightarrow> real list \<Rightarrow> error + real ndarray" where
  "start_residual f p = f p"

definition line :: "real ndarray \<Rightarrow> real list \<Rightarrow> error + real ndarray" where
  "line x p = (case p of [a, b] \<Rightarrow> Inr (nd_map (\<lambda>xi. a * xi + b) x) | _ \<Rightarrow> Inl TypeError)"

definition skewed_histogram :: "real list \<Rightarrow> nat \<Rightarrow> real \<times> real \<Rightarrow> error + (nat list \<times> real list)" where
  "skewed_histogram a bins rng = Inr ([length a, 0], [0, 500001 / 1000000, 1])"

definition svd_sample :: "matrix \<Rightarrow> error + (matrix \<times> real list \<times> matrix)" where
  "svd_sample M =
     (if M = [[2, 0], [0, 1]] then Inr ([[1, 0], [0, 1]], [2, 1], [[1, 0], [0, 1]])
      else if M = [[0, 2], [1, 0]] then Inr ([[1, 0], [0, 1]], [2, 1], [[0, 1], [1, 0]])
      else Inl LinAlgError)"

definition unit_sample :: "nat \<Rightarrow> nat \<Rightarrow> matrix" where
  "unit_sample r c = map (\<lambda>i. map (\<lambda>j. if i = j then 1 else 0) [0..<c]) [0..<r]"

section \<open>Properties of the response functions and the mixtures\<close>

lemma bindE_Inr [simp]: "bindE (Inr x) f = f x"
  by (simp add: bindE_def)

lemma bindE_Inl [simp]: "bindE (Inl e) f = Inl e"
  by (simp add: bindE_def)

text \<open>
  The range of the floats: thresholds, numbers in the normal range, and bounds of the
  constants \<open>e\<close> and \<open>ln 2\<close>.
\<close>

lemma overflow_threshold_big: "2 ^ 1023 < overflow_threshold"
  by (simp add: overflow_threshold_def)

lemma underflow_threshold_small: "0 < underflow_threshold" "underflow_threshold < 1 / 2 ^ 1074"
  by (simp_all add: underflow_threshold_def)

lemma normal_rangeI:
  assumes "1 / 2 ^ 1074 \<le> \<bar>v\<bar>" and "\<bar>v\<bar> \<le> 2 ^ 1023"
  shows "normal_range v"
  using assms overflow_threshold_big underflow_threshold_small
  by (auto simp: normal_range_def abs_if split: if_splits)

lemma normal_range_between:
  assumes "lo \<le> \<bar>v\<bar>" and "\<bar>v\<bar> \<le> hi" and "1 / 2 ^ 1074 \<le> lo" and "hi \<le> 2 ^ 1023"
  shows "normal_range v"
proof (rule normal_rangeI)
  from assms(1,3) show "1 / 2 ^ 1074 \<le> \<bar>v\<bar>" by (rule order_trans [rotated])
  from assms(2,4) show "\<bar>v\<bar> \<le> 2 ^ 1023" by (rule order_trans)
qed

lemma normal_range_mid:
  assumes "1 / 2 ^ 20 \<le> \<bar>v\<bar>" and "\<bar>v\<bar> \<le> 2 ^ 20"
  shows "normal_range v"
  using assms by (rule normal_range_between) simp_all

lemma normal_range_zero [simp]: "normal_range 0"
  using overflow_threshold_big by (simp add: normal_range_def)

lemma normal_range_minus [simp]: "normal_range (- v) \<longleftrightarrow> normal_range v"
  by (auto simp: normal_range_def)

lemma to_float_normal: "normal_range v \<Longrightarrow> to_float v = Finite v"
  by (auto simp: normal_range_def to_float_def)

lemma to_float_zero [simp]: "to_float 0 = Finite 0"
  by (simp add: to_float_normal)

lemma exp_one_bounds: "2 \<le> exp (1::real)" "exp (1::real) \<le> 3"
proof -
  show "2 \<le> exp (1::real)" using exp_ge_add_one_self [of "1::real"] by simp
  show "exp (1::real) \<le> 3" using exp_bound [of "1::real"] by simp
qed

lemma ln_two_bounds: "1 / 2 \<le> ln (2::real)" "ln (2::real) \<le> 1"
proof -
  have "exp (1 / 2 :: real) \<le> 1 + 1 / 2 + (1 / 2)\<^sup>2" by (rule exp_bound) simp_all
  also have "\<dots> \<le> 2" by (simp add: power2_eq_square)
  finally have "exp (1 / 2 :: real) \<le> 2" .
  then show "1 / 2 \<le> ln (2::real)" by (subst ln_ge_iff) simp_all
  show "ln (2::real) \<le> 1" using ln_le_minus_one [of "2::real"] by simp
qed

lemma normal_range_consts: "normal_range 1" "normal_range 8" "normal_range (ln 2)" "normal_range (exp 1)"
  using ln_two_bounds exp_one_bounds by (auto intro!: normal_rangeI)

text \<open>
  On numbers in the normal range the complex operations on real operands are the real
  operations.
\<close>

lemma c_quot_real:
  assumes "b \<noteq> 0" and "normal_range a" and "normal_range b" and "normal_range (a / b)"
  shows "c_quot (Finite a, Finite 0) (Finite b, Finite 0) = Inr (Finite (a / b), Finite 0)"
  using assms by (simp add: c_quot_def Let_def f_sub_def to_float_normal)

lemma np_cdiv_real:
  assumes "b \<noteq> 0" and "normal_range a" and "normal_range b" and "normal_range (1 / b)"
      and "normal_range (a / b)"
  shows "np_cdiv (Finite a, Finite 0) (Finite b, Finite 0) = (Finite (a / b), Finite 0)"
  using assms by (simp add: np_cdiv_def Let_def f_sub_def to_float_normal)

lemma c_prod_real:
  assumes "normal_range (a * b)"
  shows "c_prod (Finite a, Finite 0) (Finite b, Finite 0) = (Finite (a * b), Finite 0)"
  using assms by (simp add: c_prod_def f_sub_def to_float_normal)

lemma c_prod_zero: "c_prod (Finite 0, Finite 0) (Finite p, Finite 0) = (Finite 0, Finite 0)"
  by (simp add: c_prod_def f_sub_def)

lemma c_sum_real:
  assumes "normal_range a"
  shows "c_sum (Finite a, Finite 0) (Finite 0, Finite 0) = (Finite a, Finite 0)"
  using assms by (simp add: c_sum_def to_float_normal)

lemma c_powu_real:
  assumes "\<And>k. k \<le> n \<Longrightarrow> normal_range (v ^ k)"
  shows "c_powu (Finite v, Finite 0) n = (Finite (v ^ n), Finite 0)"
  using assms
proof (induction n)
  case 0
  then show ?case by simp
next
  case (Suc n)
  then have "c_powu (Finite v, Finite 0) n = (Finite (v ^ n), Finite 0)" by simp
  moreover have "normal_range (v ^ n * v)" using Suc.prems [of "Suc n"] by (simp add: mult.commute)
  ultimately show ?case by (simp add: c_prod_real)
qed

text \<open>
  \<^verbatim>\<open>0j\<close> raised to a positive real exponent is zero.
\<close>

lemma complex_pow_zero_pos:
  assumes "0 < x"
  shows "complex_pow 0 (Finite x, Finite 0) = Inr (Finite 0, Finite 0)"
proof (cases "is_small_int (Finite x) 100")
  case True
  then have "of_int \<lfloor>x\<rfloor> > (0::real)" using assms by (simp add: is_small_int_def)
  then have n: "\<lfloor>x\<rfloor> > 0" by simp
  then obtain m where m: "nat \<lfloor>x\<rfloor> = Suc m" by (cases "nat \<lfloor>x\<rfloor>") auto
  have "normal_range (0 ^ k)" for k by (cases k) (simp_all add: normal_range_consts)
  then have "c_powu (Finite 0, Finite 0) (Suc m) = (Finite (0 ^ Suc m), Finite 0)"
    by (intro c_powu_real)
  with True n m show ?thesis
    by (simp add: complex_pow_def c_powi_def cfloat_of_def int_of_float_def)
next
  case False
  with assms show ?thesis
    by (simp add: complex_pow_def c_pow_def)
qed

lemma complex_pow_zero_two: "complex_pow 0 (Finite 2, Finite 0) = Inr (Finite 0, Finite 0)"
  by (rule complex_pow_zero_pos) simp

text \<open>
  The power of \<^verbatim>\<open>np.e\<close> with a real exponent is the exponential function as a float
  while that is below the overflow threshold, by either route, the repeated
  multiplication or the polar form; it is real, and zero where the exponential function
  underflows.
\<close>

lemma exp_pow_normal:
  assumes "k \<le> 100"
  shows "normal_range (exp 1 ^ k)" and "normal_range (1 / exp 1 ^ k)"
proof -
  define B :: real where "B = 3 ^ 100"
  have B: "0 < B" "B \<le> 2 ^ 1023" "1 / 2 ^ 1074 \<le> 1 / B" by (simp_all add: B_def)
  have lo: "1 \<le> exp (1::real) ^ k" using exp_one_bounds by (intro one_le_power) simp
  have "exp (1::real) ^ k \<le> 3 ^ k" using exp_one_bounds by (intro power_mono) simp_all
  also have "\<dots> \<le> B" unfolding B_def using assms by (intro power_increasing) simp_all
  finally have hi: "exp (1::real) ^ k \<le> B" .
  have p: "\<bar>exp (1::real) ^ k\<bar> = exp 1 ^ k" by simp
  show "normal_range (exp 1 ^ k)"
  proof (rule normal_range_between [where lo = 1 and hi = B])
    show "1 \<le> \<bar>exp (1::real) ^ k\<bar>" unfolding p by (rule lo)
    show "\<bar>exp (1::real) ^ k\<bar> \<le> B" unfolding p by (rule hi)
    show "1 / 2 ^ 1074 \<le> (1::real)" by simp
    show "B \<le> 2 ^ 1023" by (rule B)
  qed
  have q: "\<bar>1 / exp (1::real) ^ k\<bar> = 1 / exp 1 ^ k" by simp
  have r: "1 / exp (1::real) ^ k \<le> 1" using lo by simp
  have s: "1 / B \<le> 1 / exp 1 ^ k" using lo hi by (intro frac_le) simp_all
  show "normal_range (1 / exp 1 ^ k)"
  proof (rule normal_range_between [where lo = "1 / B" and hi = 1])
    show "1 / B \<le> \<bar>1 / exp (1::real) ^ k\<bar>" unfolding q by (rule s)
    show "\<bar>1 / exp (1::real) ^ k\<bar> \<le> 1" unfolding q by (rule r)
    show "1 / 2 ^ 1074 \<le> 1 / B" by (rule B)
    show "(1::real) \<le> 2 ^ 1023" by simp
  qed
qed

lemma Arg_pos_real: "0 < v \<Longrightarrow> Arg (Complex v 0) = 0"
  by (rule cis_Arg_unique) (simp_all add: sgn_eq complex_eq_iff cmod_def)

lemma to_float_exp:
  assumes "exp x < overflow_threshold"
  shows "to_float (exp x) = Finite (exp x) \<or> to_float (exp x) = Finite 0"
proof -
  have "0 < overflow_threshold" using overflow_threshold_big by (simp add: order_less_trans [rotated])
  then have "\<not> exp x \<le> - overflow_threshold"
    using exp_gt_zero [of x] by linarith
  with assms show ?thesis by (simp add: to_float_def)
qed

lemma f_mul_to_float_exp:
  assumes "exp x < overflow_threshold"
  shows "f_mul (to_float (exp x)) (Finite 1) = to_float (exp x)"
    and "f_mul (to_float (exp x)) (Finite 0) = Finite 0"
  using to_float_exp [OF assms] by auto

lemma polar_pow_e:
  assumes "exp x < overflow_threshold"
  shows "polar_pow (Complex (exp 1) 0) (Finite x, Finite 0) = (to_float (exp x), Finite 0)"
proof -
  have "exp 1 powr x = exp x" by (simp add: powr_def)
  then show ?thesis
    by (simp add: polar_pow_def Let_def Arg_pos_real cmod_def normal_range_consts to_float_normal
        f_mul_to_float_exp [OF assms])
qed

lemma small_int_exp:
  assumes "is_small_int (Finite x) m" and "m \<le> 100"
  shows "0 < \<lfloor>x\<rfloor> \<Longrightarrow> exp x = exp 1 ^ nat \<lfloor>x\<rfloor>"
    and "\<lfloor>x\<rfloor> \<le> 0 \<Longrightarrow> exp x = 1 / exp 1 ^ nat (- \<lfloor>x\<rfloor>)"
    and "nat \<bar>\<lfloor>x\<rfloor>\<bar> \<le> 100"
proof -
  from assms have x: "x = of_int \<lfloor>x\<rfloor>" and b: "\<bar>x\<bar> \<le> 100" by (simp_all add: is_small_int_def)
  from b have "\<bar>\<lfloor>x\<rfloor>\<bar> \<le> 100" by linarith
  then show "nat \<bar>\<lfloor>x\<rfloor>\<bar> \<le> 100" by simp
  {
    assume "0 < \<lfloor>x\<rfloor>"
    then have "x = real (nat \<lfloor>x\<rfloor>) * 1" using x by simp
    then have "exp x = exp (real (nat \<lfloor>x\<rfloor>) * 1)" by simp
    then show "exp x = exp 1 ^ nat \<lfloor>x\<rfloor>" by (simp only: exp_of_nat_mult)
  }
  {
    assume "\<lfloor>x\<rfloor> \<le> 0"
    then have "- x = real (nat (- \<lfloor>x\<rfloor>)) * 1" using x by simp
    then have "exp (- x) = exp (real (nat (- \<lfloor>x\<rfloor>)) * 1)" by simp
    then have "exp (- x) = exp 1 ^ nat (- \<lfloor>x\<rfloor>)" by (simp only: exp_of_nat_mult)
    then show "exp x = 1 / exp 1 ^ nat (- \<lfloor>x\<rfloor>)" by (simp add: exp_minus field_simps)
  }
qed

lemma cfloat_of_e: "cfloat_of (Complex (exp 1) 0) = (Finite (exp 1), Finite 0)"
  by (simp add: cfloat_of_def to_float_normal normal_range_consts)

lemma c_powu_e: "k \<le> 100 \<Longrightarrow> c_powu (Finite (exp 1), Finite 0) k = (Finite (exp 1 ^ k), Finite 0)"
  by (rule c_powu_real) (simp add: exp_pow_normal)

lemma to_float_exp_pow:
  "k \<le> 100 \<Longrightarrow> to_float (exp 1 ^ k) = Finite (exp 1 ^ k)"
  "k \<le> 100 \<Longrightarrow> to_float (1 / exp 1 ^ k) = Finite (1 / exp 1 ^ k)"
  by (simp_all add: to_float_normal exp_pow_normal)

lemma is_inf_to_float_exp:
  assumes "exp x < overflow_threshold"
  shows "\<not> is_inf (to_float (exp x))"
  using to_float_exp [OF assms] by auto

lemma complex_pow_e:
  assumes "exp x < overflow_threshold"
  shows "complex_pow (Complex (exp 1) 0) (Finite x, Finite 0) = Inr (to_float (exp x), Finite 0)"
proof (cases "is_small_int (Finite x) 100")
  case True
  note si = small_int_exp [OF True order_refl]
  show ?thesis
  proof (cases "0 < \<lfloor>x\<rfloor>")
    case pos: True
    then have k: "nat \<lfloor>x\<rfloor> \<le> 100" using si(3) by simp
    from pos True show ?thesis
      by (simp add: complex_pow_def c_powi_def int_of_float_def cfloat_of_e c_powu_e [OF k] si(1)
          to_float_exp_pow [OF k])
  next
    case neg: False
    then have le: "\<lfloor>x\<rfloor> \<le> 0" by simp
    then have k: "nat (- \<lfloor>x\<rfloor>) \<le> 100" using si(3) by simp
    have "c_quot (Finite 1, Finite 0) (Finite (exp 1 ^ nat (- \<lfloor>x\<rfloor>)), Finite 0)
            = Inr (Finite (1 / exp 1 ^ nat (- \<lfloor>x\<rfloor>)), Finite 0)"
      by (rule c_quot_real) (simp_all add: normal_range_consts exp_pow_normal [OF k])
    with neg True show ?thesis
      by (simp add: complex_pow_def c_powi_def int_of_float_def cfloat_of_e c_powu_e [OF k] si(2) [OF le]
          to_float_exp_pow [OF k])
  qed
next
  case False
  then have "x \<noteq> 0" by (auto simp: is_small_int_def)
  with False assms show ?thesis
    by (simp add: complex_pow_def c_pow_def polar_pow_e is_inf_to_float_exp)
qed

lemma np_power_e:
  assumes "exp x < overflow_threshold"
  shows "np_power (Complex (exp 1) 0) (Finite x, Finite 0) = (to_float (exp x), Finite 0)"
proof (cases "x = 0")
  case True
  then show ?thesis by (simp add: np_power_def to_float_normal normal_range_consts)
next
  case nz: False
  show ?thesis
  proof (cases "is_small_int (Finite x) 99")
    case True
    have le: "(99::real) \<le> 100" by simp
    note si = small_int_exp [OF True le]
    show ?thesis
    proof (cases "0 < \<lfloor>x\<rfloor>")
      case pos: True
      then have a: "nat \<bar>\<lfloor>x\<rfloor>\<bar> = nat \<lfloor>x\<rfloor>" by simp
      with si(3) have k: "nat \<lfloor>x\<rfloor> \<le> 100" by simp
      from pos have "\<not> x < 0" by linarith
      with nz True show ?thesis
        by (simp add: np_power_def int_of_float_def cfloat_of_e c_powu_e [OF k] a si(1) [OF pos]
            to_float_exp_pow [OF k])
    next
      case neg: False
      then have le0: "\<lfloor>x\<rfloor> \<le> 0" by simp
      then have a: "nat \<bar>\<lfloor>x\<rfloor>\<bar> = nat (- \<lfloor>x\<rfloor>)" by simp
      with si(3) have k: "nat (- \<lfloor>x\<rfloor>) \<le> 100" by simp
      from True have "x = of_int \<lfloor>x\<rfloor>" by (simp add: is_small_int_def)
      with le0 nz have x: "x < 0" by (metis of_int_0_le_iff not_le order_antisym of_int_0 floor_of_int linorder_not_less)
      have "np_cdiv (Finite 1, Finite 0) (Finite (exp 1 ^ nat (- \<lfloor>x\<rfloor>)), Finite 0)
              = (Finite (1 / exp 1 ^ nat (- \<lfloor>x\<rfloor>)), Finite 0)"
        using k by (intro np_cdiv_real) (simp_all add: normal_range_consts exp_pow_normal)
      with nz True x show ?thesis
        by (simp add: np_power_def int_of_float_def cfloat_of_e c_powu_e [OF k] a si(2) [OF le0]
            to_float_exp_pow [OF k])
    qed
  next
    case False
    with nz assms show ?thesis
      by (simp add: np_power_def polar_pow_e)
  qed
qed

text \<open>
  The exponent of \<^verbatim>\<open>0j\<close> and the divisor of \<^verbatim>\<open>t - A\<close> for parameters in range.
\<close>

lemma hrf_exponent_eval:
  assumes "W \<noteq> 0" and "hrf_params_in_range A W"
  shows "hrf_exponent (Finite A) (Finite W) = Inr (Finite (A ^ 2 / W ^ 2 * 8 * ln 2))"
proof -
  from assms(2) have n: "normal_range (A ^ 2)" "normal_range (W ^ 2)" "normal_range (A ^ 2 / W ^ 2)"
      "normal_range (A ^ 2 / W ^ 2 * 8)" "normal_range (A ^ 2 / W ^ 2 * 8 * ln 2)"
    by (simp_all add: hrf_params_in_range_def)
  from n(1,2) have "\<not> overflow_threshold \<le> A ^ 2" "\<not> overflow_threshold \<le> W ^ 2"
    by (simp_all add: normal_range_def)
  with n assms(1) show ?thesis
    by (simp add: hrf_exponent_def float_sq_def float_truediv_def to_float_normal)
qed

lemma hrf_divisor_eval:
  assumes "A \<noteq> 0" and "hrf_params_in_range A W"
  shows "hrf_divisor (Finite A) (Finite W) = Inr (Finite (- (W / A / 8 / ln 2)), Finite 0)"
proof -
  from assms(2) have n: "normal_range A" "normal_range W" "normal_range (W / A)"
      "normal_range (W / A / 8)" "normal_range (W / A / 8 / ln 2)"
    by (simp_all add: hrf_params_in_range_def)
  have l: "ln (2::real) \<noteq> 0" using ln_two_bounds by auto
  have 1: "c_quot (Finite W, Finite 0) (Finite A, Finite 0) = Inr (Finite (W / A), Finite 0)"
    using assms(1) n by (intro c_quot_real)
  have 2: "c_quot (Finite (W / A), Finite 0) (Finite 8, Finite 0) = Inr (Finite (W / A / 8), Finite 0)"
    using n by (intro c_quot_real) (simp_all add: normal_range_consts)
  have 3: "c_quot (Finite (W / A / 8), Finite 0) (Finite (ln 2), Finite 0)
             = Inr (Finite (W / A / 8 / ln 2), Finite 0)"
    using n l by (intro c_quot_real) (simp_all add: normal_range_consts)
  have "hrf_divisor (Finite A) (Finite W) = Inr (c_neg (Finite (W / A / 8 / ln 2), Finite 0))"
    unfolding hrf_divisor_def
    by (simp only: complex_pow_zero_two bindE_Inr c_sum_real [OF n(2)] 1 2 3)
  then show ?thesis by (simp add: c_neg_def)
qed

text \<open>
  The value of \<^verbatim>\<open>res\<close> in range: the product of zero and the power vanishes, for a
  scalar and for an array.
\<close>

lemma mapE_Inr:
  "(\<And>x. x \<in> set xs \<Longrightarrow> f x = Inr (g x)) \<Longrightarrow> mapE f xs = Inr (map g xs)"
  by (induction xs) simp_all

lemma nd_mapE_Inr:
  "(\<And>x. x \<in> set (elems a) \<Longrightarrow> f x = Inr (g x)) \<Longrightarrow> nd_mapE f a = Inr (nd_map g a)"
  by (simp add: nd_mapE_def nd_map_def mapE_Inr)

lemma mapE_map_Inr:
  "(\<And>x. x \<in> set xs \<Longrightarrow> f (h x) = Inr (g x)) \<Longrightarrow> mapE f (map h xs) = Inr (map g xs)"
  by (induction xs) simp_all

lemma map2_same: "map2 f (map g xs) (map h xs) = map (\<lambda>x. f (g x) (h x)) xs"
  by (induction xs) simp_all

lemma single_gamma_hrf_res_in_range:
  assumes "0 < A" and "0 < W" and "hrf_in_range t A W K"
  shows "single_gamma_hrf_res t A W K = Inr (nd_map (\<lambda>ti. (Finite (K * (ti / A)), Finite 0)) t)"
proof -
  define d where "d = - (W / A / 8 / ln 2)"
  from assms(3) have P: "hrf_params_in_range A W"
    and T: "\<And>ti. ti \<in> set (elems t) \<Longrightarrow> hrf_time_in_range ti A W K"
    and S: "shape t \<noteq> [] \<Longrightarrow> normal_range (1 / d)"
    by (simp_all add: hrf_in_range_def d_def)
  from P have nA: "normal_range A" and nW: "normal_range W" and nd: "normal_range d"
    by (simp_all add: hrf_params_in_range_def d_def)
  have l: "0 < ln (2::real)" using ln_two_bounds by linarith
  with assms(1,2) have d0: "d \<noteq> 0" by (simp add: d_def)
  have A: "to_float A = Finite A" and W: "to_float W = Finite W"
    using nA nW by (simp_all add: to_float_normal)
  have q: "nd_mapE (\<lambda>ti. if shape t = [] then float_truediv (to_float ti) (Finite A)
                           else Inr (f_div (to_float ti) (Finite A))) t
             = Inr (nd_map (\<lambda>ti. Finite (ti / A)) t)"
  proof (rule nd_mapE_Inr)
    fix ti assume "ti \<in> set (elems t)"
    from T [OF this] have "normal_range ti" "normal_range (ti / A)"
      by (simp_all add: hrf_time_in_range_def)
    with assms(1) show "(if shape t = [] then float_truediv (to_float ti) (Finite A)
                          else Inr (f_div (to_float ti) (Finite A))) = Inr (Finite (ti / A))"
      by (simp add: float_truediv_def to_float_normal)
  qed
  have e0: "hrf_exponent (Finite A) (Finite W) = Inr (Finite (A ^ 2 / W ^ 2 * 8 * ln 2))"
    using assms(2) P by (intro hrf_exponent_eval) simp_all
  have "0 < A ^ 2 / W ^ 2 * 8 * ln 2" using assms(1,2) l by simp
  then have z: "complex_pow 0 (Finite (A ^ 2 / W ^ 2 * 8 * ln 2), Finite 0) = Inr (Finite 0, Finite 0)"
    by (rule complex_pow_zero_pos)
  have dv: "hrf_divisor (Finite A) (Finite W) = Inr (Finite d, Finite 0)"
    unfolding d_def using assms(1) P by (intro hrf_divisor_eval) simp_all
  have ex: "nd_mapE (\<lambda>ti. if shape t = [] then c_quot (f_sub (to_float ti) (Finite A), Finite 0) (Finite d, Finite 0)
                            else Inr (np_cdiv (f_sub (to_float ti) (Finite A), Finite 0) (Finite d, Finite 0))) t
             = Inr (nd_map (\<lambda>ti. (Finite ((ti - A) / d), Finite 0)) t)"
  proof (rule nd_mapE_Inr)
    fix ti assume "ti \<in> set (elems t)"
    from T [OF this] have n: "normal_range ti" "normal_range (ti - A)" "normal_range ((ti - A) / d)"
      by (simp_all add: hrf_time_in_range_def d_def)
    then have s: "f_sub (to_float ti) (Finite A) = Finite (ti - A)"
      by (simp add: f_sub_def to_float_normal)
    have c: "c_quot (Finite (ti - A), Finite 0) (Finite d, Finite 0) = Inr (Finite ((ti - A) / d), Finite 0)"
      using d0 n nd by (intro c_quot_real)
    have "np_cdiv (Finite (ti - A), Finite 0) (Finite d, Finite 0) = (Finite ((ti - A) / d), Finite 0)"
      if "shape t \<noteq> []"
      using d0 n nd S [OF that] by (intro np_cdiv_real)
    with c show "(if shape t = [] then c_quot (f_sub (to_float ti) (Finite A), Finite 0) (Finite d, Finite 0)
                   else Inr (np_cdiv (f_sub (to_float ti) (Finite A), Finite 0) (Finite d, Finite 0)))
                  = Inr (Finite ((ti - A) / d), Finite 0)"
      by (simp add: s)
  qed
  have pw: "nd_mapE (\<lambda>e. if shape t = [] then complex_pow (Complex (exp 1) 0) e
                          else Inr (np_power (Complex (exp 1) 0) e))
              (nd_map (\<lambda>ti. (Finite ((ti - A) / d), Finite 0)) t)
             = Inr (nd_map (\<lambda>ti. (to_float (exp ((ti - A) / d)), Finite 0)) t)"
  proof -
    have "mapE (\<lambda>e. if shape t = [] then complex_pow (Complex (exp 1) 0) e
                      else Inr (np_power (Complex (exp 1) 0) e))
               (map (\<lambda>ti. (Finite ((ti - A) / d), Finite 0)) (elems t))
            = Inr (map (\<lambda>ti. (to_float (exp ((ti - A) / d)), Finite 0)) (elems t))"
    proof (rule mapE_map_Inr)
      fix ti assume "ti \<in> set (elems t)"
      from T [OF this] have n: "exp ((ti - A) / d) < overflow_threshold"
        by (simp add: hrf_time_in_range_def d_def)
      show "(if shape t = [] then complex_pow (Complex (exp 1) 0) (Finite ((ti - A) / d), Finite 0)
             else Inr (np_power (Complex (exp 1) 0) (Finite ((ti - A) / d), Finite 0)))
            = Inr (to_float (exp ((ti - A) / d)), Finite 0)"
        by (simp add: complex_pow_e [OF n] np_power_e [OF n])
    qed
    then show ?thesis by (simp add: nd_mapE_def nd_map_def)
  qed
  have fin: "map2 (\<lambda>qi pwi. c_sum (f_mul (to_float K) qi, Finite 0) (c_prod (Finite 0, Finite 0) pwi))
               (map (\<lambda>ti. Finite (ti / A)) (elems t))
               (map (\<lambda>ti. (to_float (exp ((ti - A) / d)), Finite 0)) (elems t))
             = map (\<lambda>ti. (Finite (K * (ti / A)), Finite 0)) (elems t)"
  proof -
    have "map (\<lambda>ti. c_sum (f_mul (to_float K) (Finite (ti / A)), Finite 0)
                       (c_prod (Finite 0, Finite 0) (to_float (exp ((ti - A) / d)), Finite 0))) (elems t)
            = map (\<lambda>ti. (Finite (K * (ti / A)), Finite 0)) (elems t)"
    proof (rule map_cong [OF refl])
      fix ti assume "ti \<in> set (elems t)"
      from T [OF this] have n: "normal_range K" "normal_range (K * (ti / A))"
        and o: "exp ((ti - A) / d) < overflow_threshold"
        by (simp_all add: hrf_time_in_range_def d_def)
      from to_float_exp [OF o] obtain p where "to_float (exp ((ti - A) / d)) = Finite p" by blast
      with n show "c_sum (f_mul (to_float K) (Finite (ti / A)), Finite 0)
                   (c_prod (Finite 0, Finite 0) (to_float (exp ((ti - A) / d)), Finite 0))
                 = (Finite (K * (ti / A)), Finite 0)"
        by (simp add: c_prod_zero to_float_normal c_sum_real)
    qed
    then show ?thesis by (simp add: map2_same)
  qed
  show ?thesis
    unfolding single_gamma_hrf_res_def py_float_def Let_def A W
    apply (simp only: q e0 z dv ex pw bindE_Inr)
    apply (simp only: nd_map_def ndarray.simps fin)
    done
qed

text \<open>
  Beyond the range: when the power of \<^verbatim>\<open>np.e\<close> overflows, the polar form gives an
  infinite real part, Python raises \<^verbatim>\<open>OverflowError\<close> and NumPy goes on with the
  infinity, whose product with zero is a nan.
\<close>

lemma exp_overflow_large:
  assumes "overflow_threshold \<le> exp x"
  shows "100 < x"
proof (rule ccontr)
  assume "\<not> 100 < x"
  then have "exp x \<le> exp (real 100 * 1)" by simp
  also have "\<dots> = exp 1 ^ 100" by (simp only: exp_of_nat_mult)
  also have "\<dots> < overflow_threshold"
    using exp_pow_normal(1) [of 100] by (simp only: normal_range_def)
  finally show False using assms by simp
qed

lemma polar_pow_e_overflow:
  assumes "overflow_threshold \<le> exp x"
  shows "polar_pow (Complex (exp 1) 0) (Finite x, Finite 0) = (PosInf, NotANumber)"
proof -
  have "exp 1 powr x = exp x" by (simp add: powr_def)
  with assms have "to_float (exp 1 powr x) = PosInf" by (simp add: to_float_def)
  then show ?thesis
    by (simp add: polar_pow_def Let_def Arg_pos_real cmod_def normal_range_consts to_float_normal)
qed

lemma not_small_int_large: "100 < x \<Longrightarrow> \<not> is_small_int (Finite x) 100" "100 < x \<Longrightarrow> \<not> is_small_int (Finite x) 99"
  by (simp_all add: is_small_int_def)

lemma complex_pow_e_overflow:
  assumes "overflow_threshold \<le> exp x"
  shows "complex_pow (Complex (exp 1) 0) (Finite x, Finite 0) = Inl OverflowError"
proof -
  from exp_overflow_large [OF assms] have "100 < x" .
  then show ?thesis
    by (simp add: complex_pow_def c_pow_def not_small_int_large polar_pow_e_overflow [OF assms])
qed

lemma np_power_e_overflow:
  assumes "overflow_threshold \<le> exp x"
  shows "np_power (Complex (exp 1) 0) (Finite x, Finite 0) = (PosInf, NotANumber)"
proof -
  from exp_overflow_large [OF assms] have "100 < x" .
  then show ?thesis
    by (simp add: np_power_def not_small_int_large polar_pow_e_overflow [OF assms])
qed

lemma f_add_nan [simp]: "f_add x NotANumber = NotANumber"
  by (cases x) simp_all

lemma single_gamma_hrf_res_overflow:
  assumes "0 < A" and "0 < W" and "hrf_params_in_range A W"
      and "normal_range t" and "normal_range (t / A)" and "normal_range (t - A)"
      and "normal_range ((t - A) / - (W / A / 8 / ln 2))"
      and "overflow_threshold \<le> exp ((t - A) / - (W / A / 8 / ln 2))"
  shows "single_gamma_hrf_res (scalar t) A W K = Inl OverflowError"
    and "normal_range (1 / - (W / A / 8 / ln 2)) \<Longrightarrow>
         single_gamma_hrf_res (array1 [t]) A W K = Inr (array1 [(NotANumber, NotANumber)])"
proof -
  define d where "d = - (W / A / 8 / ln 2)"
  from assms(3) have nA: "normal_range A" and nW: "normal_range W" and nd: "normal_range d"
    by (simp_all add: hrf_params_in_range_def d_def)
  have l: "0 < ln (2::real)" using ln_two_bounds by linarith
  with assms(1,2) have d0: "d \<noteq> 0" by (simp add: d_def)
  have A: "to_float A = Finite A" and W: "to_float W = Finite W" and t: "to_float t = Finite t"
    using nA nW assms(4) by (simp_all add: to_float_normal)
  have q: "float_truediv (Finite t) (Finite A) = Inr (Finite (t / A))"
          "f_div (Finite t) (Finite A) = Finite (t / A)"
    using assms(1,5) by (simp_all add: float_truediv_def to_float_normal)
  have e0: "hrf_exponent (Finite A) (Finite W) = Inr (Finite (A ^ 2 / W ^ 2 * 8 * ln 2))"
    using assms(2,3) by (intro hrf_exponent_eval) simp_all
  have "0 < A ^ 2 / W ^ 2 * 8 * ln 2" using assms(1,2) l by simp
  then have z: "complex_pow 0 (Finite (A ^ 2 / W ^ 2 * 8 * ln 2), Finite 0) = Inr (Finite 0, Finite 0)"
    by (rule complex_pow_zero_pos)
  have dv: "hrf_divisor (Finite A) (Finite W) = Inr (Finite d, Finite 0)"
    unfolding d_def using assms(1,3) by (intro hrf_divisor_eval) simp_all
  have s: "f_sub (Finite t) (Finite A) = Finite (t - A)"
    using assms(6) by (simp add: f_sub_def to_float_normal)
  have c: "c_quot (Finite (t - A), Finite 0) (Finite d, Finite 0) = Inr (Finite ((t - A) / d), Finite 0)"
    using d0 assms(6,7) nd by (intro c_quot_real) (simp_all add: d_def)
  have ov: "overflow_threshold \<le> exp ((t - A) / d)" using assms(8) by (simp add: d_def)
  have p: "complex_pow (Complex (exp 1) 0) (Finite ((t - A) / d), Finite 0) = Inl OverflowError"
    by (rule complex_pow_e_overflow [OF ov])
  show "single_gamma_hrf_res (scalar t) A W K = Inl OverflowError"
    unfolding single_gamma_hrf_res_def py_float_def Let_def A W scalar_def nd_mapE_def
    by (simp only: ndarray.simps mapE.simps bindE_Inr bindE_Inl t q e0 z dv s c p simp_thms if_True)
  assume r: "normal_range (1 / - (W / A / 8 / ln 2))"
  have c': "np_cdiv (Finite (t - A), Finite 0) (Finite d, Finite 0) = (Finite ((t - A) / d), Finite 0)"
    using d0 assms(6,7) nd r by (intro np_cdiv_real) (simp_all add: d_def)
  have p': "np_power (Complex (exp 1) 0) (Finite ((t - A) / d), Finite 0) = (PosInf, NotANumber)"
    by (rule np_power_e_overflow [OF ov])
  have n: "c_sum (x, Finite 0) (c_prod (Finite 0, Finite 0) (PosInf, NotANumber)) = (NotANumber, NotANumber)" for x
    by (simp add: c_sum_def c_prod_def f_sub_def)
  show "single_gamma_hrf_res (array1 [t]) A W K = Inr (array1 [(NotANumber, NotANumber)])"
    unfolding single_gamma_hrf_res_def py_float_def Let_def A W array1_def nd_mapE_def
    by (simp only: ndarray.simps mapE.simps bindE_Inr bindE_Inl t q e0 z dv s c' p' n simp_thms
          if_False list.simps list.size zip_Cons_Cons zip_Nil prod.case)
qed

lemma exp_ln2_overflow:
  assumes "1024 \<le> c"
  shows "overflow_threshold \<le> exp (c * ln 2)"
proof -
  have "overflow_threshold \<le> (2::real) ^ 1024" by (simp add: overflow_threshold_def)
  also have "\<dots> = exp (real 1024 * ln 2)" by (simp only: exp_of_nat_mult) simp
  also have "\<dots> \<le> exp (c * ln 2)" using assms ln_two_bounds by (simp add: mult_right_mono)
  finally show ?thesis .
qed

text \<open>
  Parameters and times in and out of range.
\<close>

lemma hrf_params_in_range_1_8: "hrf_params_in_range 1 8"
proof -
  have l: "1 / 2 \<le> ln (2::real)" "ln (2::real) \<le> 1" "0 < ln (2::real)"
    using ln_two_bounds by simp_all
  have "normal_range (1\<^sup>2 / 8\<^sup>2 * 8 * ln 2)"
    using l by (intro normal_range_mid) (simp_all add: field_simps)
  moreover have "normal_range (8 / 1 / 8 / ln 2)"
    using l by (intro normal_range_mid) (simp_all add: field_simps)
  moreover have "normal_range (1\<^sup>2 / 8\<^sup>2 :: real)" "normal_range (1\<^sup>2 / 8\<^sup>2 * 8 :: real)"
      "normal_range (8\<^sup>2 :: real)" "normal_range (8 / 1 / 8 :: real)"
    by (intro normal_range_mid; simp)+
  ultimately show ?thesis
    by (simp add: hrf_params_in_range_def normal_range_consts)
qed

lemma hrf_time_in_range_2: "hrf_time_in_range 2 1 8 3"
proof -
  have e: "(2 - 1) / - (8 / 1 / 8 / ln 2) = - ln (2::real)" by simp
  have x: "exp (- ln (2::real)) = 1 / 2" by (simp add: exp_minus inverse_eq_divide)
  have n: "normal_range (2::real)" "normal_range (3::real)" "normal_range (2 / 1 :: real)"
      "normal_range (3 * (2 / 1) :: real)" "normal_range (2 - 1 :: real)"
    by (intro normal_range_mid; simp)+
  have m: "normal_range ((2 - 1) / - (8 / 1 / 8 / ln 2))"
    unfolding e by (simp add: normal_range_consts)
  have "(1 / 2 :: real) < 2 ^ 1023" by simp
  then have o: "exp ((2 - 1) / - (8 / 1 / 8 / ln 2)) < overflow_threshold"
    unfolding e x using overflow_threshold_big by (rule order_less_trans)
  from n m o show ?thesis unfolding hrf_time_in_range_def by blast
qed



lemma hrf_params_in_range_12_1: "hrf_params_in_range 12 1"
proof -
  have l: "1 / 2 \<le> ln (2::real)" "ln (2::real) \<le> 1" "0 < ln (2::real)"
    using ln_two_bounds by simp_all
  have "normal_range (12\<^sup>2 / 1\<^sup>2 * 8 * ln 2)"
    using l by (intro normal_range_mid) (simp_all add: field_simps)
  moreover have "normal_range (1 / 12 / 8 / ln 2)"
    using l by (intro normal_range_mid) (simp_all add: field_simps)
  moreover have "normal_range (12 :: real)" "normal_range (12\<^sup>2 :: real)" "normal_range (12\<^sup>2 / 1\<^sup>2 :: real)"
      "normal_range (12\<^sup>2 / 1\<^sup>2 * 8 :: real)" "normal_range (1 / 12 :: real)" "normal_range (1 / 12 / 8 :: real)"
    by (intro normal_range_mid; simp)+
  ultimately show ?thesis
    by (simp add: hrf_params_in_range_def normal_range_consts)
qed


text \<open>Subtraction of two arrays of the same shape is elementwise.\<close>

lemma broadcast_rev_same: "broadcast_rev s s = Inr s"
  by (induction s) simp_all

lemma bidx_same: "k < prod_list s \<Longrightarrow> bidx s s k = k"
proof (induction s arbitrary: k)
  case Nil
  then show ?case by simp
next
  case (Cons r rs)
  then have r: "0 < r" by (cases r) simp_all
  from Cons.prems have "k < r * prod_list rs" by simp
  with r have "k div r < prod_list rs" by (simp add: less_mult_imp_div_less mult.commute)
  then have "bidx rs rs (k div r) = k div r" by (rule Cons.IH)
  then show ?case by simp
qed

lemma map_nth_minus:
  "length xs = n \<Longrightarrow> length ys = n \<Longrightarrow> map (\<lambda>k. xs ! k - ys ! k) [0..<n] = map2 (-) xs ys"
  by (rule nth_equalityI) simp_all

lemma np_sub_same_shape:
  assumes "wf_ndarray a" and "wf_ndarray b" and "shape b = shape a"
  shows "np_sub a b = Inr \<lparr>shape = shape a, elems = map2 (-) (elems a) (elems b)\<rparr>"
proof -
  have "map (\<lambda>k. elems a ! bidx (rev (shape a)) (rev (shape a)) k
                 - elems b ! bidx (rev (shape a)) (rev (shape a)) k) [0..<prod_list (rev (shape a))]
          = map (\<lambda>k. elems a ! k - elems b ! k) [0..<prod_list (rev (shape a))]"
    by (rule map_cong [OF refl]) (simp add: bidx_same)
  also have "\<dots> = map2 (-) (elems a) (elems b)"
    using assms by (intro map_nth_minus) (simp_all add: wf_ndarray_def)
  finally show ?thesis
    by (simp add: np_sub_def assms(3) broadcast_rev_same)
qed

text \<open>
  C1, within the range of the floats: for a scalar time \<open>t\<close> and \<open>A > 0\<close>, \<open>W > 0\<close> such
  that the power of \<^verbatim>\<open>np.e\<close> does not overflow and no other number the formula computes
  overflows or underflows (\<open>hrf_params_in_range\<close>, \<open>hrf_time_in_range\<close>),
  \<open>single_gamma_hrf\<close> returns \<open>K * t / A\<close>: \<^verbatim>\<open>0j\<close> raised to the positive exponent is
  zero, and the exponential factor contributes nothing.
\<close>

theorem single_gamma_hrf_linear:
  assumes "0 < A" and "0 < W" and "hrf_params_in_range A W" and "hrf_time_in_range t A W K"
  shows "single_gamma_hrf (scalar t) A W K = Inr (scalar (Finite (K * t / A)))"
proof -
  from assms(3,4) have "hrf_in_range (scalar t) A W K"
    by (simp add: hrf_in_range_def scalar_def)
  from single_gamma_hrf_res_in_range [OF assms(1,2) this] show ?thesis
    by (simp add: single_gamma_hrf_def nd_map_def scalar_def)
qed

theorem single_gamma_hrf_linear_witness:
  "(0::real) < 1 \<and> (0::real) < 8 \<and> hrf_params_in_range 1 8 \<and> hrf_time_in_range 2 1 8 3
   \<and> single_gamma_hrf (scalar 2) 1 8 3 = Inr (scalar (Finite 6))"
  using single_gamma_hrf_linear [of 1 8 2 3] hrf_params_in_range_1_8 hrf_time_in_range_2
  by simp

text \<open>
  C1 does not extend to every \<open>t\<close>, \<open>A > 0\<close> and \<open>W > 0\<close>; it fails where the exponential
  factor overflows: at \<open>t = 0\<close>, \<open>A = 12\<close>, \<open>W = 1\<close>, \<open>K = 1\<close> the exponent of \<^verbatim>\<open>np.e\<close> is
  \<open>1152 * ln 2\<close>, the power is beyond the largest float, and the call raises
  \<^verbatim>\<open>OverflowError\<close> where \<open>K * t / A\<close> is \<open>0\<close>.
\<close>

theorem single_gamma_hrf_linear_counterexample:
  "(0::real) < 12 \<and> (0::real) < 1
   \<and> single_gamma_hrf (scalar 0) 12 1 1 = Inl OverflowError
   \<and> single_gamma_hrf (scalar 0) 12 1 1 \<noteq> Inr (scalar (Finite (1 * 0 / 12)))"
proof -
  have e: "(0 - 12) / - (1 / 12 / 8 / ln (2::real)) = 1152 * ln 2" by simp
  have n: "normal_range (1152 * ln (2::real))"
    using ln_two_bounds by (intro normal_range_mid) simp_all
  have o: "overflow_threshold \<le> exp (1152 * ln (2::real))" by (rule exp_ln2_overflow) simp
  have m0: "normal_range (0::real)" "normal_range (0 / 12 :: real)" by simp_all
  have m1: "normal_range (0 - 12 :: real)" by (intro normal_range_mid; simp)
  have pre: "(0::real) < 12" "(0::real) < 1" by simp_all
  note ov = single_gamma_hrf_res_overflow [where t = 0 and A = 12 and W = 1 and K = 1,
      OF pre hrf_params_in_range_12_1 m0 m1, unfolded e, OF n o]
  from ov(1) show ?thesis by (simp add: single_gamma_hrf_def)
qed








text \<open>
  C10: \<open>dual_positive_gaussian\<close> returns the NaN sentinel whenever an amplitude is
  negative; for non-negative amplitudes it returns what \<open>dual_gaussian\<close> returns on the
  same arguments, so an invalid standard deviation still gives NaN.
\<close>

theorem dual_positive_gaussian_spec:
  "(amp1 < 0 \<or> amp2 < 0 \<longrightarrow> dual_positive_gaussian x amp1 mean1 std1 amp2 mean2 std2 = NaN) \<and>
   (0 \<le> amp1 \<and> 0 \<le> amp2 \<longrightarrow>
      dual_positive_gaussian x amp1 mean1 std1 amp2 mean2 std2 =
        dual_gaussian x amp1 mean1 std1 amp2 mean2 std2) \<and>
   (0 \<le> amp1 \<and> 0 \<le> amp2 \<and> (std1 \<le> 0 \<or> std2 \<le> 0) \<longrightarrow>
      dual_positive_gaussian x amp1 mean1 std1 amp2 mean2 std2 = NaN)"
  by (auto simp: dual_positive_gaussian_def dual_gaussian_def)

theorem dual_positive_gaussian_spec_witness:
  "((- 1 :: real) < 0 \<or> (1::real) < 0) \<and>
   dual_positive_gaussian (array1 [0, 1]) (- 1) 0 1 1 0 1 = NaN \<and>
   (0 \<le> (2::real) \<and> 0 \<le> (0::real)) \<and>
   dual_positive_gaussian (array1 [0, 1]) 2 0 1 0 0 1 = dual_gaussian (array1 [0, 1]) 2 0 1 0 0 1 \<and>
   (0 \<le> (2::real) \<and> 0 \<le> (0::real) \<and> ((- 1 :: real) \<le> 0 \<or> (1::real) \<le> 0)) \<and>
   dual_positive_gaussian (array1 [0, 1]) 2 0 (- 1) 0 0 1 = NaN"
  using dual_positive_gaussian_spec [of "- 1" 1 "array1 [0, 1]" 0 1 0 1]
        dual_positive_gaussian_spec [of 2 0 "array1 [0, 1]" 0 1 0 1]
        dual_positive_gaussian_spec [of 2 0 "array1 [0, 1]" 0 "- 1" 0 1]
  by auto

section \<open>Properties of the least-squares fit\<close>

lemma concat_replicate_nth:
  "length xs = m \<Longrightarrow> i < n \<Longrightarrow> j < m \<Longrightarrow> concat (replicate n xs) ! (i * m + j) = xs ! j"
proof (induction n arbitrary: i)
  case 0
  then show ?case by simp
next
  case (Suc n)
  show ?case
  proof (cases i)
    case 0
    with Suc.prems show ?thesis by (simp add: nth_append)
  next
    case (Suc i')
    with Suc.prems have "i' < n" by simp
    from Suc.IH [OF Suc.prems(1) this Suc.prems(3)]
    have "concat (replicate n xs) ! (i' * m + j) = xs ! j" .
    with Suc Suc.prems show ?thesis by (simp add: nth_append)
  qed
qed

lemma length_concat_replicate: "length (concat (replicate n xs)) = n * length xs"
  by (induction n) simp_all

text \<open>
  The source tiles and flattens under the guard \<^verbatim>\<open>if nsamp > 1\<close>. With more than one row
  it tiles and flattens as C5 says: for every observed array \<open>y\<close> of shape \<open>(n, m)\<close> with
  \<open>n > 1\<close> and every \<open>x\<close> of length \<open>m\<close>, \<open>least_sq_fit\<close> tiles \<open>x\<close> \<open>n\<close> times and
  flattens \<open>y\<close>, so that position \<open>i * m + j\<close> holds \<open>x[j]\<close> and \<open>y[i, j]\<close>, and it returns what the solver
  returns on the error function \<open>y_flat - fx(x_flat, *p)\<close> and the start values.
\<close>

theorem least_sq_fit_tiles_rows:
  assumes "shape y = [n, m]" and "1 < n" and "wf_ndarray y"
      and "shape x = [m]" and "wf_ndarray x"
  shows "least_sq_fit leastsq fx params y (Some x) =
           leastsq (\<lambda>p. bindE (fx \<lparr>shape = [n * m], elems = concat (replicate n (elems x))\<rparr> p)
                          (\<lambda>v. np_sub \<lparr>shape = [n * m], elems = elems y\<rparr> v)) params
         \<and> (\<forall>i < n. \<forall>j < m.
               concat (replicate n (elems x)) ! (i * m + j) = elems x ! j
             \<and> elems y ! (i * m + j) = nd_get2 y i j)"
proof -
  have lx: "length (elems x) = m" and ly: "length (elems y) = n * m"
    using assms by (simp_all add: wf_ndarray_def)
  have xy: "least_sq_xy y (Some x) =
              Inr (\<lparr>shape = [n * m], elems = concat (replicate n (elems x))\<rparr>,
                   \<lparr>shape = [n * m], elems = elems y\<rparr>)"
    using assms(1,2) lx ly
    by (simp add: least_sq_xy_def bindE_def tile_ravel_def ravel_def length_concat_replicate)
  have e: "efx fx a b = (\<lambda>p. bindE (fx a p) (\<lambda>v. np_sub b v))" for a b
    by (rule ext) (simp add: efx_def)
  have fit: "least_sq_fit leastsq fx params y (Some x) =
           leastsq (\<lambda>p. bindE (fx \<lparr>shape = [n * m], elems = concat (replicate n (elems x))\<rparr> p)
                          (\<lambda>v. np_sub \<lparr>shape = [n * m], elems = elems y\<rparr> v)) params"
    by (simp add: least_sq_fit_def xy bindE_def e)
  have pair: "\<forall>i < n. \<forall>j < m.
               concat (replicate n (elems x)) ! (i * m + j) = elems x ! j
             \<and> elems y ! (i * m + j) = nd_get2 y i j"
    using assms(1) lx by (simp add: concat_replicate_nth nd_get2_def)
  from fit pair show ?thesis by blast
qed

theorem least_sq_fit_tiles_rows_witness:
  "shape \<lparr>shape = [2, 2], elems = [5, 7, 6, 8 :: real]\<rparr> = [2, 2] \<and> (1::nat) < 2
   \<and> wf_ndarray \<lparr>shape = [2, 2], elems = [5, 7, 6, 8 :: real]\<rparr>
   \<and> shape (array1 [0, 1 :: real]) = [2] \<and> wf_ndarray (array1 [0, 1 :: real])
   \<and> least_sq_fit start_residual line [1, 0] \<lparr>shape = [2, 2], elems = [5, 7, 6, 8]\<rparr> (Some (array1 [0, 1]))
       = Inr \<lparr>shape = [4], elems = [5, 6, 6, 7]\<rparr>"
proof -
  have h: "shape \<lparr>shape = [2, 2], elems = [5, 7, 6, 8 :: real]\<rparr> = [2, 2]" "(1::nat) < 2"
      "wf_ndarray \<lparr>shape = [2, 2], elems = [5, 7, 6, 8 :: real]\<rparr>"
      "shape (array1 [0, 1 :: real]) = [2]" "wf_ndarray (array1 [0, 1 :: real])"
    by (simp_all add: wf_ndarray_def array1_def)
  have r: "start_residual
       (\<lambda>p. bindE (line \<lparr>shape = [2 * 2], elems = concat (replicate 2 (elems (array1 [0, 1])))\<rparr> p)
              (\<lambda>v. np_sub \<lparr>shape = [2 * 2], elems = elems \<lparr>shape = [2, 2], elems = [5, 7, 6, 8]\<rparr>\<rparr> v))
       [1, 0] = Inr \<lparr>shape = [4], elems = [5, 6, 6, 7]\<rparr>"
    by code_simp
  from least_sq_fit_tiles_rows [OF h, of start_residual line "[1, 0]"] h r
  show ?thesis by simp
qed

text \<open>
  C5: on a two-dimensional \<open>y\<close> with one row the source departs from the claim. The
  comment above the guard reads \<^verbatim>\<open># transform x and y into 1d arrays\<close>, but the guard
  \<^verbatim>\<open>nsamp > 1\<close> leaves out \<open>nsamp = 1\<close>: \<open>y = [[5, 7]]\<close> of shape \<open>(1, 2)\<close> with
  \<open>x = [0, 1]\<close> stays two-dimensional, and the solver is given residuals of shape
  \<open>(1, 2)\<close>, where tiling \<open>x\<close> once and flattening \<open>y\<close>, as the claim has it, gives
  residuals of shape \<open>(2)\<close>.
\<close>

theorem least_sq_fit_single_row_not_flattened:
  "least_sq_fit start_residual line [1, 0] \<lparr>shape = [1, 2], elems = [5, 7]\<rparr> (Some (array1 [0, 1]))
     = Inr \<lparr>shape = [1, 2], elems = [5, 6]\<rparr>
   \<and> start_residual (efx line (tile_ravel 1 (array1 [0, 1])) (ravel \<lparr>shape = [1, 2], elems = [5, 7]\<rparr>)) [1, 0]
     = Inr \<lparr>shape = [2], elems = [5, 6]\<rparr>
   \<and> least_sq_fit start_residual line [1, 0] \<lparr>shape = [1, 2], elems = [5, 7]\<rparr> (Some (array1 [0, 1]))
     \<noteq> start_residual (efx line (tile_ravel 1 (array1 [0, 1])) (ravel \<lparr>shape = [1, 2], elems = [5, 7]\<rparr>)) [1, 0]"
proof -
  have a: "least_sq_fit start_residual line [1, 0] \<lparr>shape = [1, 2], elems = [5, 7]\<rparr> (Some (array1 [0, 1]))
     = Inr \<lparr>shape = [1, 2], elems = [5, 6]\<rparr>"
    by code_simp
  have b: "start_residual (efx line (tile_ravel 1 (array1 [0, 1])) (ravel \<lparr>shape = [1, 2], elems = [5, 7]\<rparr>)) [1, 0]
     = Inr \<lparr>shape = [2], elems = [5, 6]\<rparr>"
    by code_simp
  show ?thesis unfolding a b by simp
qed

section \<open>Properties of the fit to histograms\<close>

lemma bindE_eq_Inr: "bindE m f = Inr r \<longleftrightarrow> (\<exists>x. m = Inr x \<and> f x = Inr r)"
  by (cases m) simp_all

lemma asscalar_eq_Inr: "asscalar xs = Inr v \<longleftrightarrow> xs = [v]"
  by (auto simp: asscalar_def split: list.splits)

lemma asscalar_error: "length xs \<noteq> 1 \<Longrightarrow> asscalar xs = Inl ValueError"
  by (auto simp: asscalar_def split: list.splits)

lemma length_np_unique: "length (np_unique xs) = card (set xs)"
  by (simp add: np_unique_def length_remdups_card_conv)

lemma set_np_unique: "set (np_unique xs) = set xs"
  by (simp add: np_unique_def)

lemma bin_width_of_error:
  "card (set (map np_round6 (map2 (-) (butlast edges) (tl edges)))) \<noteq> 1
   \<Longrightarrow> bin_width_of edges = Inl ValueError"
  unfolding bin_width_of_def
  by (subst asscalar_error) (simp_all only: length_np_unique bindE_Inl not_False_eq_True)

lemma bin_width_of_Inr:
  assumes "bin_width_of edges = Inr w"
  shows "card (set (map np_round6 (map2 (-) (butlast edges) (tl edges)))) = 1
       \<and> (\<exists>v \<in> set (map np_round6 (map2 (-) (butlast edges) (tl edges))). w = \<bar>v\<bar>)"
proof -
  let ?ds = "map np_round6 (map2 (-) (butlast edges) (tl edges))"
  from assms obtain v where v: "asscalar (np_unique ?ds) = Inr v" and w: "w = \<bar>v\<bar>"
    unfolding bin_width_of_def bindE_eq_Inr by auto
  from v have u: "np_unique ?ds = [v]" by (simp only: asscalar_eq_Inr)
  then have "length (np_unique ?ds) = 1" by simp
  then have c: "card (set ?ds) = 1" by (simp only: length_np_unique)
  from u have "v \<in> set (np_unique ?ds)" by simp
  then have "v \<in> set ?ds" by (simp only: set_np_unique)
  with c w show ?thesis by blast
qed

lemma hist_loop_Some:
  "hist_loop h nb rng X (H, Some b) = Inr (H', bins') \<Longrightarrow> bins' = Some b"
proof (induction X arbitrary: H)
  case Nil
  then show ?case by simp
next
  case (Cons obsrv X)
  from Cons.prems obtain ce where ce: "h obsrv nb rng = Inr ce"
    and r: "(case ce of (counts, edges) \<Rightarrow> hist_loop h nb rng X (H @ [counts], Some b)) = Inr (H', bins')"
    by (auto simp: bindE_eq_Inr split: prod.splits)
  obtain counts edges where "ce = (counts, edges)" by (cases ce)
  with r have "hist_loop h nb rng X (H @ [counts], Some b) = Inr (H', bins')" by simp
  then show ?case by (rule Cons.IH)
qed

lemma hist_loop_first:
  assumes "h obsrv nb rng = Inr (counts, edges)"
  shows "hist_loop h nb rng (obsrv # X) (H, None) =
           bindE (bin_width_of edges) (\<lambda>bw.
             hist_loop h nb rng X (H @ [counts],
               Some (butlast edges, bw, map (\<lambda>l. l + bw / 2) (butlast edges))))"
  using assms by (cases "bin_width_of edges") simp_all

lemma hist_loop_None_width:
  assumes "hist_loop h nb rng X (H, None) = Inr (H', Some (bl, bw, bc))"
  shows "\<exists>obsrv rest counts edges. X = obsrv # rest \<and> h obsrv nb rng = Inr (counts, edges)
           \<and> bin_width_of edges = Inr bw"
proof (cases X)
  case Nil
  with assms show ?thesis by simp
next
  case (Cons obsrv rest)
  from assms Cons obtain ce where ce: "h obsrv nb rng = Inr ce"
    by (cases "h obsrv nb rng") simp_all
  obtain counts edges where ce': "ce = (counts, edges)" by (cases ce)
  from assms Cons hist_loop_first [of h obsrv nb rng counts edges rest H] ce ce'
  obtain w where w: "bin_width_of edges = Inr w"
    and l: "hist_loop h nb rng rest (H @ [counts],
               Some (butlast edges, w, map (\<lambda>l. l + w / 2) (butlast edges))) = Inr (H', Some (bl, bw, bc))"
    by (auto simp: bindE_eq_Inr)
  from hist_loop_Some [OF l] have "w = bw" by simp
  with w ce ce' Cons show ?thesis by blast
qed

lemma fit2histogram_Inr:
  assumes "fit2histogram h leastsq X fx params nb xr = Inr (Ha, bl, bw, fit)"
  shows "\<exists>rng H bc. x_range_of X xr = Inr rng \<and> hist_loop h nb rng X ([], None) = Inr (H, Some (bl, bw, bc))"
proof -
  from assms obtain rng where rng: "x_range_of X xr = Inr rng"
    by (cases "x_range_of X xr") (simp_all add: fit2histogram_def)
  from assms rng obtain Hb where hb: "hist_loop h nb rng X ([], None) = Inr Hb"
    by (cases "hist_loop h nb rng X ([], None)") (simp_all add: fit2histogram_def)
  obtain H bins where Hb: "Hb = (H, bins)" by (cases Hb)
  from assms rng hb Hb have
    "bindE (if length H = 1 then Inr (array1 (hd H)) else asarray2 H) (\<lambda>Ha'.
       case bins of
         None \<Rightarrow> Inl UnboundLocalError
       | Some (bin_left, bin_width, bin_centers) \<Rightarrow>
           bindE (least_sq_fit leastsq fx params (nd_map real Ha') (Some (array1 bin_centers)))
             (\<lambda>fit. Inr (Ha', bin_left, bin_width, fit))) = Inr (Ha, bl, bw, fit)"
    by (simp add: fit2histogram_def)
  then obtain Ha' where c:
    "(case bins of
         None \<Rightarrow> Inl UnboundLocalError
       | Some (bin_left, bin_width, bin_centers) \<Rightarrow>
           bindE (least_sq_fit leastsq fx params (nd_map real Ha') (Some (array1 bin_centers)))
             (\<lambda>fit. Inr (Ha', bin_left, bin_width, fit))) = Inr (Ha, bl, bw, fit)"
    unfolding bindE_eq_Inr by blast
  have "\<exists>bc. bins = Some (bl, bw, bc)"
  proof (cases bins)
    case None
    with c show ?thesis by simp
  next
    case (Some b)
    obtain bl' bw' bc' where b: "b = (bl', bw', bc')" by (cases b)
    from c Some b show ?thesis by (auto simp: bindE_eq_Inr)
  qed
  then obtain bc where "bins = Some (bl, bw, bc)" by blast
  with hb Hb rng show ?thesis by blast
qed

text \<open>
  C8: when the differences of the edges of the first histogram, rounded to 6 decimal
  places, take more than one value, \<open>fit2histogram\<close> raises (a \<open>ValueError\<close> from the
  extraction of the single value); it returns only when they take exactly one value.
\<close>

theorem fit2histogram_fails_on_distinct_widths:
  assumes "x_range_of (obsrv # X) x_range = Inr rng"
      and "histogram obsrv nbins rng = Inr (counts, edges)"
  shows "(1 < card (set (map np_round6 (map2 (-) (butlast edges) (tl edges))))
            \<longrightarrow> fit2histogram histogram leastsq (obsrv # X) fx params nbins x_range = Inl ValueError)
       \<and> ((\<exists>res. fit2histogram histogram leastsq (obsrv # X) fx params nbins x_range = Inr res)
            \<longrightarrow> card (set (map np_round6 (map2 (-) (butlast edges) (tl edges)))) = 1)"
proof (intro conjI impI)
  assume "1 < card (set (map np_round6 (map2 (-) (butlast edges) (tl edges))))"
  then have "bin_width_of edges = Inl ValueError"
    by (intro bin_width_of_error) simp
  then have "hist_loop histogram nbins rng (obsrv # X) ([], None) = Inl ValueError"
    using hist_loop_first [of histogram obsrv nbins rng counts edges X "[]"] assms(2) by simp
  then show "fit2histogram histogram leastsq (obsrv # X) fx params nbins x_range = Inl ValueError"
    by (simp add: fit2histogram_def assms(1))
next
  assume "\<exists>res. fit2histogram histogram leastsq (obsrv # X) fx params nbins x_range = Inr res"
  then obtain Ha bl bw fit where
    "fit2histogram histogram leastsq (obsrv # X) fx params nbins x_range = Inr (Ha, bl, bw, fit)"
    by (auto simp: split_paired_all)
  from fit2histogram_Inr [OF this] assms(1) obtain H bc where
    "hist_loop histogram nbins rng (obsrv # X) ([], None) = Inr (H, Some (bl, bw, bc))"
    by auto
  from hist_loop_None_width [OF this] assms(2) have "bin_width_of edges = Inr bw" by auto
  from bin_width_of_Inr [OF this]
  show "card (set (map np_round6 (map2 (-) (butlast edges) (tl edges)))) = 1" by blast
qed

theorem fit2histogram_fails_on_distinct_widths_witness:
  "x_range_of ([1 / 5] # []) (Some (0, 1)) = Inr (0, 1)
   \<and> skewed_histogram [1 / 5] 2 (0, 1) = Inr ([1, 0], [0, 500001 / 1000000, 1])
   \<and> 1 < card (set (map np_round6 (map2 (-) (butlast [0, 500001 / 1000000, 1]) (tl [0, 500001 / 1000000, 1]))))
   \<and> fit2histogram skewed_histogram start_residual ([1 / 5] # []) line [1, 0] 2 (Some (0, 1)) = Inl ValueError
   \<and> x_range_of ([0, 1] # []) None = Inr (0, 1)
   \<and> np_histogram [0, 1] 2 (0, 1) = Inr ([1, 1], [0, 1 / 2, 1])
   \<and> (\<exists>res. fit2histogram np_histogram start_residual ([0, 1] # []) line [1, 0] 2 None = Inr res)
   \<and> card (set (map np_round6 (map2 (-) (butlast [0, 1 / 2, 1]) (tl [0, 1 / 2, 1])))) = 1"
proof -
  have h1: "x_range_of ([1 / 5] # []) (Some (0, 1)) = Inr (0, 1)"
    by (simp add: x_range_of_def)
  have h2: "skewed_histogram [1 / 5] 2 (0, 1) = Inr ([1, 0], [0, 500001 / 1000000, 1])"
    by (simp add: skewed_histogram_def)
  have r: "map np_round6 (map2 (-) (butlast [0, 500001 / 1000000, 1]) (tl [0, 500001 / 1000000, 1]))
             = [- (500001 / 1000000), - (499999 / 1000000)]"
    by code_simp
  have h3: "1 < card (set (map np_round6 (map2 (-) (butlast [0, 500001 / 1000000, 1]) (tl [0, 500001 / 1000000, 1]))))"
    unfolding r by simp
  have g1: "x_range_of ([0, 1] # []) None = Inr (0, 1)" by code_simp
  have g2: "np_histogram [0, 1] 2 (0, 1) = Inr ([1, 1], [0, 1 / 2, 1])" by code_simp
  have "fit2histogram np_histogram start_residual ([0, 1] # []) line [1, 0] 2 None
          = Inr (\<lparr>shape = [2], elems = [1, 1]\<rparr>, [0, 1 / 2], 1 / 2,
                 \<lparr>shape = [2], elems = [3 / 4, 1 / 4]\<rparr>)"
    by code_simp
  then have g3: "\<exists>res. fit2histogram np_histogram start_residual ([0, 1] # []) line [1, 0] 2 None = Inr res"
    by blast
  from fit2histogram_fails_on_distinct_widths
         [where histogram = skewed_histogram and leastsq = start_residual and fx = line
            and params = "[1, 0]", OF h1 h2] h3
  have a: "fit2histogram skewed_histogram start_residual ([1 / 5] # []) line [1, 0] 2 (Some (0, 1)) = Inl ValueError"
    by blast
  from fit2histogram_fails_on_distinct_widths
         [where histogram = np_histogram and leastsq = start_residual and fx = line
            and params = "[1, 0]", OF g1 g2] g3
  have b: "card (set (map np_round6 (map2 (-) (butlast [0, 1 / 2, 1]) (tl [0, 1 / 2, 1])))) = 1"
    by blast
  from h1 h2 h3 a g1 g2 g3 b show ?thesis by blast
qed








section \<open>Properties of the random rotation\<close>

lemma length_neg_first [simp]: "length (neg_first r) = length r"
  by (simp add: neg_first_def split: list.splits)

lemma has_shape_neg_first: "has_shape M n m \<Longrightarrow> has_shape (map neg_first M) n m"
  by (simp add: has_shape_def)

lemma has_shape_square: "has_shape M n n \<Longrightarrow> is_square M"
  by (simp add: has_shape_def is_square_def)

lemma has_shape_slice:
  assumes "has_shape vh d d" and "ns \<le> d" and "nt \<le> d"
  shows "has_shape (map (take nt) (take ns vh)) ns nt"
  using assms by (auto simp: has_shape_def dest: in_set_takeD)

text \<open>
  C6, for data with enough columns: when the data, supplied or drawn, is a matrix with at least
  \<open>max ns nt\<close> columns (and at least one row, unless \<open>max ns nt = 0\<close>) and the
  decomposition returns, \<open>get_random_rotation\<close> returns a matrix of shape \<open>(ns, nt)\<close>.
\<close>

theorem get_random_rotation_shape:
  assumes "svd_shape_contract svd"
      and "nt = (case nto of None \<Rightarrow> ns | Some n \<Rightarrow> n)"
      and "dat = (case datao of None \<Rightarrow> normal (max ns nt * 10) (max ns nt) | Some D \<Rightarrow> D)"
      and "has_shape dat r c" and "0 < r \<or> max ns nt = 0" and "max ns nt \<le> c"
      and "svd (map (take (max ns nt)) dat) = Inr usv"
  shows "\<exists>R. get_random_rotation svd normal ns nto datao = Inr R \<and> has_shape R ns nt"
proof -
  obtain u s vh where usv: "usv = (u, s, vh)" by (cases usv)
  let ?R = "map (take nt) (take ns vh)"
  have R: "has_shape ?R ns nt"
  proof (cases "max ns nt = 0")
    case True
    then show ?thesis by (simp add: has_shape_def)
  next
    case False
    with assms(5) have r: "0 < r" by auto
    have ne: "map (take (max ns nt)) dat \<noteq> []" using assms(4) r by (auto simp: has_shape_def)
    have rows: "\<forall>row \<in> set (map (take (max ns nt)) dat). length row = max ns nt"
      using assms(4,6) by (auto simp: has_shape_def)
    from assms(1) ne rows assms(7) usv have vh: "has_shape vh (max ns nt) (max ns nt)"
      unfolding svd_shape_contract_def by blast
    show ?thesis by (rule has_shape_slice [OF vh]) simp_all
  qed
  have run: "get_random_rotation svd normal ns nto datao =
          (if ns = nt then bindE (np_det ?R) (\<lambda>dt. if dt < 0 then Inr (map neg_first ?R) else Inr ?R)
           else Inr ?R)"
    unfolding get_random_rotation_def Let_def
    unfolding assms(2) [symmetric]
    unfolding assms(3) [symmetric]
    by (simp add: assms(7) usv)
  show ?thesis
  proof (cases "ns = nt")
    case False
    with run R show ?thesis by simp
  next
    case True
    with R have "is_square ?R" by (simp add: has_shape_square)
    then have "np_det ?R = Inr (det ?R)" by (simp add: np_det_def)
    with run True have eq: "get_random_rotation svd normal ns nto datao =
        (if det ?R < 0 then Inr (map neg_first ?R) else Inr ?R)"
      by simp
    show ?thesis
    proof (cases "det ?R < 0")
      case True
      with eq have "get_random_rotation svd normal ns nto datao = Inr (map neg_first ?R)"
        by (simp only: if_True)
      with has_shape_neg_first [OF R] show ?thesis by blast
    next
      case False
      with eq have "get_random_rotation svd normal ns nto datao = Inr ?R"
        by (simp only: if_False)
      with R show ?thesis by blast
    qed
  qed
qed

lemma svd_sample_shape: "svd_shape_contract svd_sample"
  by (auto simp: svd_shape_contract_def svd_sample_def has_shape_def split: if_splits)

theorem get_random_rotation_shape_witness:
  "svd_shape_contract svd_sample
   \<and> (1::nat) = (case Some 1 of None \<Rightarrow> 2 | Some n \<Rightarrow> n)
   \<and> [[2, 0], [0, 1]] = (case Some [[2, 0], [0, 1]] of None \<Rightarrow> unit_sample (max 2 1 * 10) (max 2 1) | Some D \<Rightarrow> D)
   \<and> has_shape [[2, 0], [0, 1]] 2 2 \<and> ((0::nat) < 2 \<or> max 2 (1::nat) = 0) \<and> max 2 (1::nat) \<le> 2
   \<and> svd_sample (map (take (max 2 1)) [[2, 0], [0, 1]]) = Inr ([[1, 0], [0, 1]], [2, 1], [[1, 0], [0, 1]])
   \<and> get_random_rotation svd_sample unit_sample 2 (Some 1) (Some [[2, 0], [0, 1]]) = Inr [[1], [0]]
   \<and> has_shape [[1], [0]] 2 1"
proof -
  have h1: "svd_shape_contract svd_sample" by (rule svd_sample_shape)
  have h2: "(1::nat) = (case Some 1 of None \<Rightarrow> 2 | Some n \<Rightarrow> n)" by simp
  have h3: "[[2, 0], [0, 1]] = (case Some [[2, 0], [0, 1]] of None \<Rightarrow> unit_sample (max 2 1 * 10) (max 2 1) | Some D \<Rightarrow> D)"
    by simp
  have h4: "has_shape [[2, 0], [0, 1]] 2 2" by (simp add: has_shape_def)
  have h5: "(0::nat) < 2 \<or> max 2 (1::nat) = 0" by simp
  have h6: "max 2 (1::nat) \<le> 2" by simp
  have h7: "svd_sample (map (take (max 2 1)) [[2, 0], [0, 1]]) = Inr ([[1, 0], [0, 1]], [2, 1], [[1, 0], [0, 1]])"
    by (simp add: svd_sample_def)
  have v: "get_random_rotation svd_sample unit_sample 2 (Some 1) (Some [[2, 0], [0, 1]]) = Inr [[1], [0]]"
    by code_simp
  from get_random_rotation_shape
         [where svd = svd_sample and normal = unit_sample and ns = 2 and nto = "Some 1"
            and datao = "Some [[2, 0], [0, 1]]" and nt = 1 and dat = "[[2, 0], [0, 1]]"
            and r = 2 and c = 2, OF h1 h2 h3 h4 h5 h6 h7] v
  have "has_shape [[1], [0]] 2 1" by simp
  with h1 h2 h3 h4 h5 h6 h7 v show ?thesis by blast
qed

text \<open>
  C6 does not extend to every data argument; it fails on supplied data with fewer than
  \<open>max ns nt\<close> columns: for a matrix with two columns and \<open>ns = nt = 3\<close> the result has
  shape \<open>(2, 2)\<close>.
\<close>

theorem get_random_rotation_shape_counterexample:
  "get_random_rotation svd_sample unit_sample 3 None (Some [[2, 0], [0, 1]]) = Inr [[1, 0], [0, 1]]
   \<and> \<not> has_shape [[1, 0], [0, 1]] 3 3"
proof -
  have "get_random_rotation svd_sample unit_sample 3 None (Some [[2, 0], [0, 1]]) = Inr [[1, 0], [0, 1]]"
    by code_simp
  then show ?thesis by (simp add: has_shape_def)
qed

lemma head0_neg_first: "head0 (neg_first r) = - head0 r"
  by (simp add: head0_def neg_first_def split: list.splits)

lemma tl_neg_first: "tl (neg_first r) = tl r"
  by (simp add: neg_first_def split: list.splits)

lemma minor_neg_first: "minor i (map neg_first M) = minor i M"
  by (simp add: minor_def take_map drop_map tl_neg_first flip: map_append)

lemma det_neg_first:
  assumes "M \<noteq> []"
  shows "det (map neg_first M) = - det M"
proof -
  from assms obtain r rs where M: "M = r # rs" by (cases M) auto
  have "det (map neg_first M)
          = (\<Sum>i\<leftarrow>[0..<Suc (length rs)].
               (- 1) ^ i * head0 (map neg_first M ! i) * det (minor i (map neg_first M)))"
    by (simp add: M del: upt_Suc)
  also have "\<dots> = (\<Sum>i\<leftarrow>[0..<Suc (length rs)]. - ((- 1) ^ i * head0 (M ! i) * det (minor i M)))"
  proof (rule arg_cong [where f = sum_list], rule map_cong [OF refl])
    fix i assume "i \<in> set [0..<Suc (length rs)]"
    then have "i < length M" by (auto simp add: M)
    then show "(- 1) ^ i * head0 (map neg_first M ! i) * det (minor i (map neg_first M))
                 = - ((- 1) ^ i * head0 (M ! i) * det (minor i M))"
      by (simp add: head0_neg_first minor_neg_first)
  qed
  also have "\<dots> = - (\<Sum>i\<leftarrow>[0..<Suc (length rs)]. (- 1) ^ i * head0 (M ! i) * det (minor i M))"
    by (simp only: uminus_sum_list_map o_def)
  also have "\<dots> = - det M"
    by (simp add: M del: upt_Suc)
  finally show ?thesis .
qed

lemma dot_neg_first: "dot (neg_first a) (neg_first b) = dot a b"
  by (cases a; cases b) (simp_all add: dot_def neg_first_def)

lemma mul_transposed_neg_first:
  "mul_transposed (map neg_first M) (map neg_first M) = mul_transposed M M"
  by (simp add: mul_transposed_def dot_neg_first o_def)

text \<open>
  C7: when \<open>ns = nt\<close>, \<open>get_random_rotation\<close> negates the first column of the candidate
  matrix exactly when its determinant is negative, and the matrix it returns has
  determinant \<open>1\<close> and is orthogonal, \<open>R @ R.T\<close> being the identity. The decomposition is
  assumed to return an orthogonal \<open>vh\<close> (\<open>svd_contract\<close>); arithmetic is exact.
\<close>

theorem get_random_rotation_proper:
  assumes "svd_contract svd"
      and "nto = None \<or> nto = Some ns"
      and "dat = (case datao of None \<Rightarrow> normal (ns * 10) ns | Some D \<Rightarrow> D)"
      and "has_shape dat r c" and "0 < r"
      and "svd (map (take ns) dat) = Inr (u, s, vh)"
  shows "\<exists>R. get_random_rotation svd normal ns nto datao = Inr R
           \<and> R = (if det (map (take ns) (take ns vh)) < 0
                  then map neg_first (map (take ns) (take ns vh))
                  else map (take ns) (take ns vh))
           \<and> det R = 1 \<and> mul_transposed R R = identity (length R)"
proof -
  define k where "k = min ns c"
  have ne: "map (take ns) dat \<noteq> []" using assms(4,5) by (auto simp: has_shape_def)
  have rows: "\<forall>row \<in> set (map (take ns) dat). length row = k"
    using assms(4) by (auto simp: has_shape_def k_def)
  from assms(1) ne rows assms(6)
  have vh: "has_shape vh k k" and orth: "mul_transposed vh vh = identity k" and dt: "\<bar>det vh\<bar> = 1"
    unfolding svd_contract_def by blast+
  have k: "k \<le> ns" by (simp add: k_def)
  from vh k have "take ns vh = vh" by (simp add: has_shape_def)
  moreover from vh k have "map (take ns) vh = vh"
    by (intro map_idI) (simp add: has_shape_def)
  ultimately have cand: "map (take ns) (take ns vh) = vh" by simp
  from vh have sq: "np_det vh = Inr (det vh)"
    by (simp add: np_det_def has_shape_square)
  from vh have len: "length vh = k" by (simp add: has_shape_def)
  have nt: "(case nto of None \<Rightarrow> ns | Some n \<Rightarrow> n) = ns" using assms(2) by auto
  have run: "get_random_rotation svd normal ns nto datao =
               (if det vh < 0 then Inr (map neg_first vh) else Inr vh)"
    unfolding get_random_rotation_def Let_def nt max.idem
    unfolding assms(3) [symmetric]
    by (simp add: assms(6) cand sq)
  show ?thesis
  proof (cases "det vh < 0")
    case True
    with dt have m1: "det vh = - 1" by simp
    then have "vh \<noteq> []" by auto
    then have "det (map neg_first vh) = 1" by (simp add: det_neg_first m1)
    moreover have "mul_transposed (map neg_first vh) (map neg_first vh) = identity (length (map neg_first vh))"
      by (simp add: mul_transposed_neg_first orth len)
    moreover from run True have "get_random_rotation svd normal ns nto datao = Inr (map neg_first vh)"
      by (simp only: if_True)
    ultimately show ?thesis using True by (simp only: cand if_True) blast
  next
    case False
    with dt have "det vh = 1" by simp
    moreover have "mul_transposed vh vh = identity (length vh)" by (simp add: orth len)
    moreover from run False have "get_random_rotation svd normal ns nto datao = Inr vh"
      by (simp only: if_False)
    ultimately show ?thesis using False by (simp only: cand if_False) blast
  qed
qed

lemma svd_sample_contract: "svd_contract svd_sample"
proof (unfold svd_contract_def, intro allI impI, elim conjE)
  fix M :: matrix and c u s vh
  assume rows: "\<forall>r \<in> set M. length r = c" and sv: "svd_sample M = Inr (u, s, vh)"
  have a: "mul_transposed [[1, 0], [0, 1]] [[1, 0], [0, 1]] = identity 2"
          "mul_transposed [[0, 1], [1, 0]] [[0, 1], [1, 0]] = identity 2"
          "\<bar>det [[1, 0], [0, 1]]\<bar> = 1" "\<bar>det [[0, 1], [1, 0]]\<bar> = 1"
    by code_simp+
  from sv consider (A) "M = [[2, 0], [0, 1]]" "vh = [[1, 0], [0, 1]]"
    | (B) "M = [[0, 2], [1, 0]]" "vh = [[0, 1], [1, 0]]"
    by (auto simp: svd_sample_def split: if_splits)
  then show "has_shape vh c c \<and> mul_transposed vh vh = identity c \<and> \<bar>det vh\<bar> = 1"
  proof cases
    case A
    with rows have c: "c = 2" by auto
    show ?thesis unfolding A c using a by (simp add: has_shape_def del: det.simps)
  next
    case B
    with rows have c: "c = 2" by auto
    show ?thesis unfolding B c using a by (simp add: has_shape_def del: det.simps)
  qed
qed

theorem get_random_rotation_proper_witness:
  "svd_contract svd_sample \<and> ((None :: nat option) = None \<or> None = Some (2::nat))
   \<and> [[0, 2], [1, 0]] = (case Some [[0, 2], [1, 0]] of None \<Rightarrow> unit_sample (2 * 10) 2 | Some D \<Rightarrow> D)
   \<and> has_shape [[0, 2], [1, 0]] 2 2 \<and> (0::nat) < 2
   \<and> svd_sample (map (take 2) [[0, 2], [1, 0]]) = Inr ([[1, 0], [0, 1]], [2, 1], [[0, 1], [1, 0]])
   \<and> det [[0, 1], [1, 0]] < 0
   \<and> get_random_rotation svd_sample unit_sample 2 None (Some [[0, 2], [1, 0]]) = Inr [[0, 1], [- 1, 0]]
   \<and> det [[0, 1], [- 1, 0]] = 1
   \<and> mul_transposed [[0, 1], [- 1, 0]] [[0, 1], [- 1, 0]] = identity 2"
proof -
  have h1: "svd_contract svd_sample" by (rule svd_sample_contract)
  have h2: "(None :: nat option) = None \<or> None = Some (2::nat)" by simp
  have h3: "[[0, 2], [1, 0]] = (case Some [[0, 2], [1, 0]] of None \<Rightarrow> unit_sample (2 * 10) 2 | Some D \<Rightarrow> D)"
    by simp
  have h4: "has_shape [[0, 2], [1, 0]] 2 2" by (simp add: has_shape_def)
  have h5: "(0::nat) < 2" by simp
  have h6: "svd_sample (map (take 2) [[0, 2], [1, 0]]) = Inr ([[1, 0], [0, 1]], [2, 1], [[0, 1], [1, 0]])"
    by (simp add: svd_sample_def)
  have d: "det [[0, 1], [1, 0]] < 0" by code_simp
  have v: "get_random_rotation svd_sample unit_sample 2 None (Some [[0, 2], [1, 0]]) = Inr [[0, 1], [- 1, 0]]"
    by code_simp
  from get_random_rotation_proper
         [where svd = svd_sample and normal = unit_sample and ns = 2 and nto = None
            and datao = "Some [[0, 2], [1, 0]]" and dat = "[[0, 2], [1, 0]]"
            and r = 2 and c = 2, OF h1 h2 h3 h4 h5 h6]
  obtain R where R: "get_random_rotation svd_sample unit_sample 2 None (Some [[0, 2], [1, 0]]) = Inr R"
      "det R = 1" "mul_transposed R R = identity (length R)"
    by blast
  from R(1) v have "R = [[0, 1], [- 1, 0]]" by simp
  with R(2,3) have "det [[0, 1], [- 1, 0]] = 1"
      "mul_transposed [[0, 1], [- 1, 0]] [[0, 1], [- 1, 0]] = identity (length [[0, 1], [- 1, 0 :: real]])"
    by (simp_all only:)
  moreover have "length [[0, 1], [- 1, 0 :: real]] = 2" by simp
  ultimately have "det [[0, 1], [- 1, 0]] = 1 \<and> mul_transposed [[0, 1], [- 1, 0]] [[0, 1], [- 1, 0]] = identity 2"
    by (simp only:)
  with h1 h2 h3 h4 h5 h6 d v show ?thesis by blast
qed

end
